theory Spec2Isabelle
  imports Main "HOL-Library.Word"
begin

unbundle bit_operations_syntax

section \<open>Bytes, errors and the writer interface\<close>

text \<open>
  A shallow embedding of package \<^verbatim>\<open>aws_bundle\<close>.  A Go \<^verbatim>\<open>[]byte\<close> is a list of
  8-bit words.  A Go \<^verbatim>\<open>error\<close> is a value of the datatype below; \<^verbatim>\<open>nil\<close> is
  \<open>None\<close> of \<open>error option\<close>.  A run-time panic (a slice bound out of range, a nil
  dereference) unwinds the Go stack; the model returns it in the error slot as
  \<open>Panic\<close>, so that no panic is silently turned into a value.
\<close>

type_synonym byte = "8 word"

datatype error =
    AesClosed                 \<comment> \<open>"AES-128-CBC writer is already closed"\<close>
  | WriterClosed              \<comment> \<open>"Writer is already closed"\<close>
  | SizeMismatch int int      \<comment> \<open>"expected %d bytes, actually wrote %d bytes"\<close>
  | KeySizeError nat          \<comment> \<open>crypto/aes: invalid key size\<close>
  | ErrShortWrite             \<comment> \<open>io.ErrShortWrite\<close>
  | ErrWriteTooLong           \<comment> \<open>archive/tar: write too long\<close>
  | ErrWriteAfterClose        \<comment> \<open>archive/tar: write after close\<close>
  | TarMissedWriting int      \<comment> \<open>archive/tar: missed writing %d bytes\<close>
  | RegionError string string \<comment> \<open>"unable to get certificate for region ..."\<close>
  | NotRSA string             \<comment> \<open>"certificate for region ... does not contain an RSA key"\<close>
  | External string           \<comment> \<open>an error made by the caller's Sink or by a library\<close>
  | Panic string

text \<open>
  \<^verbatim>\<open>io.Writer\<close> and \<^verbatim>\<open>io.Closer\<close>, as state transformers on the state \<open>'d\<close> of the
  object that is written to.  \<^verbatim>\<open>Write\<close> returns the count \<open>n\<close> (never negative, by
  the contract of \<^verbatim>\<open>io.Writer\<close>) and the error.  A call that does not return is
  \<open>None\<close>.
\<close>

type_synonym 'd writer = "byte list \<Rightarrow> 'd \<Rightarrow> ((nat \<times> error option) \<times> 'd) option"
type_synonym 'd closer = "'d \<Rightarrow> (error option \<times> 'd) option"

text \<open>\<^verbatim>\<open>bytes.Buffer\<close>, as the tests use it behind \<^verbatim>\<open>nopWriteCloser\<close>: it appends
  and accepts everything.\<close>

definition buffer_Write :: "byte list writer" where
  "buffer_Write p d = Some ((length p, None), d @ p)"

section \<open>AES-128-CBC writer\<close>

text \<open>
  \<^verbatim>\<open>crypto/aes\<close> and \<^verbatim>\<open>crypto/cipher\<close> are libraries.  The block cipher is a
  parameter \<open>E\<close>: a key gives a function on 128-bit blocks.  CBC chaining is the
  one of \<^verbatim>\<open>cipher.NewCBCEncrypter\<close>: each plaintext block is XORed with the
  previous ciphertext block (at first the IV) and encrypted.
\<close>

type_synonym block = "128 word"
type_synonym blockcipher = "byte list \<Rightarrow> block \<Rightarrow> block"

definition block_of_bytes :: "byte list \<Rightarrow> block" where
  "block_of_bytes bs = foldl (\<lambda>w b. push_bit 8 w OR ucast b) 0 bs"

definition bytes_of_block :: "block \<Rightarrow> byte list" where
  "bytes_of_block w = map (\<lambda>i. ucast (drop_bit (8 * (15 - i)) w)) [0..<16]"

record cbcEncrypter =
  cbc_key :: "byte list"
  cbc_iv :: block

fun CryptBlocks :: "(block \<Rightarrow> block) \<Rightarrow> block \<Rightarrow> byte list \<Rightarrow> byte list \<times> block" where
  "CryptBlocks enc iv src =
     (if length src < 16 then ([], iv)
      else let c = enc (block_of_bytes (take 16 src) XOR iv);
               (rest, iv') = CryptBlocks enc c (drop 16 src)
           in (bytes_of_block c @ rest, iv'))"

declare CryptBlocks.simps [simp del]

record aesCbcWriter =
  buffer :: "byte list"
  cbc :: "cbcEncrypter option"

definition newAes128CbcWriter :: "byte list \<Rightarrow> byte list \<Rightarrow> error + aesCbcWriter" where
  "newAes128CbcWriter key iv =
     (if length key \<notin> {16, 24, 32} then Inl (KeySizeError (length key))
      else if length iv \<noteq> 16 then Inl (Panic ''cipher.NewCBCEncrypter: IV length must equal block size'')
      else Inr \<lparr>buffer = [], cbc = Some \<lparr>cbc_key = key, cbc_iv = block_of_bytes iv\<rparr>\<rparr>)"

text \<open>\<^verbatim>\<open>writeBlocks\<close>: encrypt and write as many full blocks as possible.  Both
  callers have checked \<^verbatim>\<open>a.cbc != nil\<close>.\<close>

definition writeBlocks ::
  "'d writer \<Rightarrow> blockcipher \<Rightarrow> byte list \<Rightarrow> aesCbcWriter \<times> 'd \<Rightarrow>
     ((nat \<times> error option) \<times> aesCbcWriter \<times> 'd) option" where
  "writeBlocks w E plaintext = (\<lambda>(a, d).
     case cbc a of
       None \<Rightarrow> Some ((0, Some (Panic ''nil pointer dereference'')), a, d)
     | Some c \<Rightarrow>
         let bytes = (length plaintext div 16) * 16;
             (ciphertext, iv') = CryptBlocks (E (cbc_key c)) (cbc_iv c) (take bytes plaintext)
         in (case w ciphertext d of
               None \<Rightarrow> None
             | Some (r, d') \<Rightarrow> Some (r, a\<lparr>cbc := Some (c\<lparr>cbc_iv := iv'\<rparr>)\<rparr>, d')))"

text \<open>The second half of \<^verbatim>\<open>Write\<close>, from "Write full blocks from p" on; \<open>n\<close> is
  the count so far.\<close>

definition aes_Write_rest ::
  "'d writer \<Rightarrow> blockcipher \<Rightarrow> byte list \<Rightarrow> nat \<Rightarrow> aesCbcWriter \<times> 'd \<Rightarrow>
     ((nat \<times> error option) \<times> aesCbcWriter \<times> 'd) option" where
  "aes_Write_rest w E p n ad =
     (case writeBlocks w E p ad of
        None \<Rightarrow> None
      | Some ((n2, err), a, d) \<Rightarrow>
          if length p > n2
          then let remainder = drop n2 p
               in Some ((n + n2 + length remainder, err), a\<lparr>buffer := buffer a @ remainder\<rparr>, d)
          else Some ((n + n2, err), a, d))"

definition aes_Write ::
  "'d writer \<Rightarrow> blockcipher \<Rightarrow> (aesCbcWriter \<times> 'd) writer" where
  "aes_Write w E p = (\<lambda>(a, d).
     if cbc a = None then Some ((0, Some AesClosed), a, d)
     else if length (buffer a) > 0 then
       let x0 = 16 - int (length (buffer a));
           x = (if x0 > int (length p) then int (length p) else x0)
       in if x < 0 then Some ((0, Some (Panic ''slice bounds out of range'')), a, d)
          else
            let a1 = a\<lparr>buffer := buffer a @ take (nat x) p\<rparr>;
                p1 = drop (nat x) p
            in if length (buffer a1) = 16 then
                 (case writeBlocks w E (buffer a1) (a1, d) of
                    None \<Rightarrow> None
                  | Some ((_, err), a2, d2) \<Rightarrow>
                      let a3 = a2\<lparr>buffer := []\<rparr>;
                          n = nat x
                      in if err \<noteq> None then Some ((n, err), a3, d2)
                         else aes_Write_rest w E p1 n (a3, d2))
               else aes_Write_rest w E p1 0 (a1, d)
     else aes_Write_rest w E p 0 (a, d))"

text \<open>\<^verbatim>\<open>Close\<close>: pad the buffer to a whole block (PKCS#7), encrypt and write it.
  \<^verbatim>\<open>byte(16 - plaintextBytes)\<close> is a conversion to \<^verbatim>\<open>uint8\<close>, which wraps.\<close>

definition aes_Close :: "'d writer \<Rightarrow> blockcipher \<Rightarrow> (aesCbcWriter \<times> 'd) closer" where
  "aes_Close w E = (\<lambda>(a, d).
     if cbc a = None then Some (Some AesClosed, a, d)
     else
       let plaintextBytes = length (buffer a);
           paddingByte = (word_of_int (16 - int plaintextBytes) :: byte);
           a1 = a\<lparr>buffer := buffer a @ replicate (16 - plaintextBytes) paddingByte\<rparr>
       in (case writeBlocks w E (buffer a1) (a1, d) of
             None \<Rightarrow> None
           | Some ((_, err), a2, d2) \<Rightarrow>
               if err \<noteq> None then Some (err, a2, d2)
               else Some (None, a2\<lparr>cbc := None\<rparr>, d2)))"

section \<open>Formatting and SHA-1\<close>

text \<open>\<^verbatim>\<open>fmt.Sprintf("%x", bytes)\<close>: two lowercase hexadecimal digits per byte.\<close>

definition hexdigit :: "nat \<Rightarrow> char" where
  "hexdigit n = ''0123456789abcdef'' ! (n mod 16)"

definition hex :: "byte list \<Rightarrow> string" where
  "hex bs = concat (map (\<lambda>b. [hexdigit (unat b div 16), hexdigit (unat b mod 16)]) bs)"

text \<open>\<^verbatim>\<open>[]byte(s)\<close> for a string.\<close>

definition bytes_of_string :: "string \<Rightarrow> byte list" where
  "bytes_of_string s = map (\<lambda>c. word_of_nat (of_char c)) s"

text \<open>\<^verbatim>\<open>%d\<close> of an \<^verbatim>\<open>int\<close>.\<close>

function decimal_nat :: "nat \<Rightarrow> string" where
  "decimal_nat n =
     (if n < 10 then [hexdigit n] else decimal_nat (n div 10) @ [hexdigit (n mod 10)])"
  by pat_completeness auto
termination
  by (relation "measure id") auto

declare decimal_nat.simps [simp del]

definition decimal :: "int \<Rightarrow> string" where
  "decimal i = (if i < 0 then CHR ''-'' # decimal_nat (nat (- i)) else decimal_nat (nat i))"

text \<open>
  \<^verbatim>\<open>crypto/sha1\<close> is a library; this is SHA-1 as FIPS 180 defines it.  A
  \<^verbatim>\<open>hash.Hash\<close> made by \<^verbatim>\<open>sha1.New()\<close> is modelled by the bytes written to it so
  far: \<^verbatim>\<open>Write\<close> appends (and never fails), \<^verbatim>\<open>Sum(nil)\<close> is \<open>sha1\<close> of them.
\<close>

type_synonym u32 = "32 word"

definition rotl32 :: "nat \<Rightarrow> u32 \<Rightarrow> u32" where
  "rotl32 n x = push_bit n x OR drop_bit (32 - n) x"

definition be32 :: "byte list \<Rightarrow> u32" where
  "be32 bs = foldl (\<lambda>x b. push_bit 8 x OR ucast b) 0 bs"

definition bytes_of_u32 :: "u32 \<Rightarrow> byte list" where
  "bytes_of_u32 x = map (\<lambda>i. ucast (drop_bit (8 * (3 - i)) x)) [0..<4]"

definition bytes_of_u64 :: "64 word \<Rightarrow> byte list" where
  "bytes_of_u64 x = map (\<lambda>i. ucast (drop_bit (8 * (7 - i)) x)) [0..<8]"

definition sha1_pad :: "byte list \<Rightarrow> byte list" where
  "sha1_pad m = m @ [0x80] @ replicate ((119 - length m mod 64) mod 64) 0
                  @ bytes_of_u64 (word_of_nat (8 * length m))"

fun chunks_of :: "nat \<Rightarrow> 'a list \<Rightarrow> 'a list list" where
  "chunks_of k xs = (if k = 0 \<or> xs = [] then [] else take k xs # chunks_of k (drop k xs))"

declare chunks_of.simps [simp del]

text \<open>The message schedule, newest word first.\<close>

fun sha1_schedule :: "nat \<Rightarrow> u32 list \<Rightarrow> u32 list" where
  "sha1_schedule 0 ws = ws"
| "sha1_schedule (Suc k) ws =
     sha1_schedule k (rotl32 1 (ws ! 2 XOR ws ! 7 XOR ws ! 13 XOR ws ! 15) # ws)"

type_synonym sha1_state = "u32 \<times> u32 \<times> u32 \<times> u32 \<times> u32"

definition sha1_f :: "nat \<Rightarrow> u32 \<Rightarrow> u32 \<Rightarrow> u32 \<Rightarrow> u32" where
  "sha1_f t b c d =
     (if t < 20 then (b AND c) OR (NOT b AND d)
      else if t < 40 then b XOR c XOR d
      else if t < 60 then (b AND c) OR (b AND d) OR (c AND d)
      else b XOR c XOR d)"

definition sha1_k :: "nat \<Rightarrow> u32" where
  "sha1_k t = (if t < 20 then 0x5A827999 else if t < 40 then 0x6ED9EBA1
               else if t < 60 then 0x8F1BBCDC else 0xCA62C1D6)"

fun sha1_rounds :: "nat \<Rightarrow> u32 list \<Rightarrow> sha1_state \<Rightarrow> sha1_state" where
  "sha1_rounds t [] st = st"
| "sha1_rounds t (x # xs) (a, b, c, d, e) =
     sha1_rounds (Suc t) xs
       (rotl32 5 a + sha1_f t b c d + e + sha1_k t + x, a, rotl32 30 b, c, d)"

definition sha1_block :: "sha1_state \<Rightarrow> byte list \<Rightarrow> sha1_state" where
  "sha1_block st blk =
     (case st of (h0, h1, h2, h3, h4) \<Rightarrow>
        (case sha1_rounds 0 (rev (sha1_schedule 64 (rev (map be32 (chunks_of 4 blk))))) st of
           (a, b, c, d, e) \<Rightarrow> (h0 + a, h1 + b, h2 + c, h3 + d, h4 + e)))"

definition sha1 :: "byte list \<Rightarrow> byte list" where
  "sha1 m =
     (case foldl sha1_block (0x67452301, 0xEFCDAB89, 0x98BADCFE, 0x10325476, 0xC3D2E1F0)
             (chunks_of 64 (sha1_pad m)) of
        (h0, h1, h2, h3, h4) \<Rightarrow> concat (map bytes_of_u32 [h0, h1, h2, h3, h4]))"

section \<open>Counting writer\<close>

text \<open>\<^verbatim>\<open>countingWriter\<close>: the count \<^verbatim>\<open>n\<close> (an \<^verbatim>\<open>int64\<close>) paired with the state of the
  embedded writer.\<close>

definition counting_Write :: "'d writer \<Rightarrow> (int \<times> 'd) writer" where
  "counting_Write w p = (\<lambda>(cn, d).
     case w p d of
       None \<Rightarrow> None
     | Some ((n, err), d') \<Rightarrow> Some ((n, err), (cn + int n, d')))"

section \<open>Sink and hashing sink\<close>

text \<open>
  The interface \<^verbatim>\<open>Sink\<close> with the \<^verbatim>\<open>io.WriteCloser\<close> it hands out: \<open>'s\<close> is the
  state of the caller's storage, \<open>'h\<close> the state of one open file object.
\<close>

record ('s, 'h) Sink =
  WriteBundleFile :: "string \<Rightarrow> 's \<Rightarrow> ((error + 'h) \<times> 's) option"
  wc_Write :: "byte list \<Rightarrow> 'h \<times> 's \<Rightarrow> ((nat \<times> error option) \<times> 'h \<times> 's) option"
  wc_Close :: "'h \<times> 's \<Rightarrow> (error option \<times> 's) option"

record hashingSinkFile =
  hsf_filename :: string
  hsf_hash :: "byte list"

text \<open>\<^verbatim>\<open>hashingSink\<close>: its \<^verbatim>\<open>files\<close>, paired with the state of the wrapped sink.\<close>

type_synonym 's hashingSink = "hashingSinkFile list \<times> 's"

record 'h hashingSinkWriter =
  hsw_name :: string
  hsw_h :: "byte list"   \<comment> \<open>the bytes written to the \<^verbatim>\<open>hash.Hash\<close>\<close>
  hsw_w :: 'h

definition hs_WriteBundleFile ::
  "('s, 'h) Sink \<Rightarrow> string \<Rightarrow> 's hashingSink \<Rightarrow>
     ((error + 'h hashingSinkWriter) \<times> 's hashingSink) option" where
  "hs_WriteBundleFile S fname = (\<lambda>(files, s).
     case WriteBundleFile S fname s of
       None \<Rightarrow> None
     | Some (Inl err, s') \<Rightarrow> Some (Inl err, (files, s'))
     | Some (Inr h, s') \<Rightarrow> Some (Inr \<lparr>hsw_name = fname, hsw_h = [], hsw_w = h\<rparr>, (files, s')))"

definition hsw_Write ::
  "('s, 'h) Sink \<Rightarrow> byte list \<Rightarrow> 'h hashingSinkWriter \<times> 's hashingSink \<Rightarrow>
     ((nat \<times> error option) \<times> 'h hashingSinkWriter \<times> 's hashingSink) option" where
  "hsw_Write S p = (\<lambda>(hsw, (files, s)).
     let hsw1 = hsw\<lparr>hsw_h := hsw_h hsw @ p\<rparr>
     in (case wc_Write S p (hsw_w hsw1, s) of
           None \<Rightarrow> None
         | Some (r, h', s') \<Rightarrow> Some (r, hsw1\<lparr>hsw_w := h'\<rparr>, (files, s'))))"

definition hsw_Close ::
  "('s, 'h) Sink \<Rightarrow> 'h hashingSinkWriter \<times> 's hashingSink \<Rightarrow>
     (error option \<times> 's hashingSink) option" where
  "hsw_Close S = (\<lambda>(hsw, (files, s)).
     let file = \<lparr>hsf_filename = hsw_name hsw, hsf_hash = sha1 (hsw_h hsw)\<rparr>;
         files' = files @ [file]
     in (case wc_Close S (hsw_w hsw, s) of
           None \<Rightarrow> None
         | Some (err, s') \<Rightarrow> Some (err, (files', s'))))"

text \<open>The hashing sink is a \<^verbatim>\<open>Sink\<close> itself.\<close>

definition hashingSink :: "('s, 'h) Sink \<Rightarrow> ('s hashingSink, 'h hashingSinkWriter) Sink" where
  "hashingSink S =
     \<lparr>WriteBundleFile = hs_WriteBundleFile S, wc_Write = hsw_Write S, wc_Close = hsw_Close S\<rparr>"

section \<open>Chunk writer\<close>

record 'h chunkWriter =
  cw_name :: string
  cw_chunkSize :: int
  cur_filename :: string
  cur_w :: "'h option"
  cur_index :: int
  cur_offset :: int

definition newChunkWriter :: "string \<Rightarrow> int \<Rightarrow> 'h chunkWriter" where
  "newChunkWriter nm chunkSize =
     \<lparr>cw_name = nm, cw_chunkSize = chunkSize, cur_filename = [], cur_w = None,
      cur_index = 0, cur_offset = 0\<rparr>"

definition bytesRemainingInChunk :: "'h chunkWriter \<Rightarrow> int" where
  "bytesRemainingInChunk cw =
     (if cur_w cw = None then 0 else cw_chunkSize cw - cur_offset cw)"

definition closeChunk ::
  "('s, 'h) Sink \<Rightarrow> 'h chunkWriter \<times> 's \<Rightarrow> (error option \<times> 'h chunkWriter \<times> 's) option" where
  "closeChunk S = (\<lambda>(cw, s).
     case cur_w cw of
       None \<Rightarrow> Some (Some (Panic ''nil pointer dereference''), cw, s)
     | Some h \<Rightarrow>
         (case wc_Close S (h, s) of
            None \<Rightarrow> None
          | Some (err, s') \<Rightarrow> Some (err, cw\<lparr>cur_w := None\<rparr>, s')))"

definition openChunk ::
  "('s, 'h) Sink \<Rightarrow> 'h chunkWriter \<times> 's \<Rightarrow> (error option \<times> 'h chunkWriter \<times> 's) option" where
  "openChunk S = (\<lambda>(cw, s).
     let cw1 = cw\<lparr>cur_filename := cw_name cw @ ''.part.'' @ decimal (cur_index cw)\<rparr>;
         cw2 = cw1\<lparr>cur_index := cur_index cw1 + 1, cur_offset := 0\<rparr>
     in (case WriteBundleFile S (cur_filename cw2) s of
           None \<Rightarrow> None
         | Some (Inl err, s') \<Rightarrow> Some (Some err, cw2, s')
         | Some (Inr h, s') \<Rightarrow> Some (None, cw2\<lparr>cur_w := Some h\<rparr>, s')))"

text \<open>\<^verbatim>\<open>newChunk\<close>; \<open>openChunk\<close> above is its second half, from the
  \<^verbatim>\<open>Sprintf\<close> of the file name on.\<close>

definition newChunk ::
  "('s, 'h) Sink \<Rightarrow> 'h chunkWriter \<times> 's \<Rightarrow> (error option \<times> 'h chunkWriter \<times> 's) option" where
  "newChunk S = (\<lambda>(cw, s).
     if cur_w cw \<noteq> None then
       (case closeChunk S (cw, s) of
          None \<Rightarrow> None
        | Some (err, cw', s') \<Rightarrow>
            if err \<noteq> None then Some (err, cw', s') else openChunk S (cw', s'))
     else openChunk S (cw, s))"

text \<open>
  The loop of \<^verbatim>\<open>Write\<close>.  It has no bound in the source, so it is a partial
  function: \<open>None\<close> is a call that never returns.  The value of
  \<^verbatim>\<open>cw.newChunk()\<close> is dropped, as in the source.
\<close>

partial_function (option) cw_Write_loop ::
  "('s, 'h) Sink \<Rightarrow> byte list \<Rightarrow> nat \<Rightarrow> 'h chunkWriter \<Rightarrow> 's \<Rightarrow>
     ((nat \<times> error option) \<times> 'h chunkWriter \<times> 's) option" where
  "cw_Write_loop S p n cw s =
     (if length p > 0 then
        (let bytes = bytesRemainingInChunk cw
         in if bytes = 0 then
              (case newChunk S (cw, s) of
                 None \<Rightarrow> None
               | Some (_, cw', s') \<Rightarrow> cw_Write_loop S p n cw' s')
            else
              (let bytes' = (if bytes > int (length p) then int (length p) else bytes)
               in if bytes' < 0 then Some ((n, Some (Panic ''slice bounds out of range'')), cw, s)
                  else
                    (case cur_w cw of
                       None \<Rightarrow> Some ((n, Some (Panic ''nil pointer dereference'')), cw, s)
                     | Some h \<Rightarrow>
                         (case wc_Write S (take (nat bytes') p) (h, s) of
                            None \<Rightarrow> None
                          | Some ((thisN, thisErr), h', s') \<Rightarrow>
                              (let n' = n + thisN;
                                   cw' = cw\<lparr>cur_w := Some h',
                                            cur_offset := cur_offset cw + int thisN\<rparr>
                               in if thisErr \<noteq> None then Some ((n', thisErr), cw', s')
                                  else cw_Write_loop S (drop (nat bytes') p) n' cw' s')))))
      else Some ((n, None), cw, s))"

declare cw_Write_loop.simps [code]

definition cw_Write :: "('s, 'h) Sink \<Rightarrow> ('h chunkWriter \<times> 's) writer" where
  "cw_Write S p = (\<lambda>(cw, s). cw_Write_loop S p 0 cw s)"

definition cw_Close :: "('s, 'h) Sink \<Rightarrow> ('h chunkWriter \<times> 's) closer" where
  "cw_Close S = (\<lambda>(cw, s).
     if cur_w cw \<noteq> None then closeChunk S (cw, s) else Some (None, cw, s))"

section \<open>The sink of the tests\<close>

text \<open>
  \<^verbatim>\<open>accumulatingSink\<close> of the package's tests: a map from file names to buffers,
  here an association list in the order of creation.  Opening a name twice
  panics.  The \<^verbatim>\<open>nopWriteCloser\<close> it returns is modelled by the file name; its
  \<^verbatim>\<open>Write\<close> is the one of \<^verbatim>\<open>bytes.Buffer\<close>, its \<^verbatim>\<open>Close\<close> returns \<^verbatim>\<open>nil\<close>.
\<close>

type_synonym accumulatingSink = "(string \<times> byte list) list"

definition acc_WriteBundleFile ::
  "string \<Rightarrow> accumulatingSink \<Rightarrow> ((error + string) \<times> accumulatingSink) option" where
  "acc_WriteBundleFile fname files =
     (if fname \<in> fst ` set files
      then Some (Inl (Panic ''attempt to write duplicate file''), files)
      else Some (Inr fname, files @ [(fname, [])]))"

definition acc_Write ::
  "byte list \<Rightarrow> string \<times> accumulatingSink \<Rightarrow>
     ((nat \<times> error option) \<times> string \<times> accumulatingSink) option" where
  "acc_Write p = (\<lambda>(h, files).
     Some ((length p, None), h, map (\<lambda>(k, v). if k = h then (k, v @ p) else (k, v)) files))"

definition acc_Close :: "string \<times> accumulatingSink \<Rightarrow> (error option \<times> accumulatingSink) option" where
  "acc_Close = (\<lambda>(h, files). Some (None, files))"

definition accSink :: "(accumulatingSink, string) Sink" where
  "accSink = \<lparr>WriteBundleFile = acc_WriteBundleFile, wc_Write = acc_Write, wc_Close = acc_Close\<rparr>"

section \<open>Library writers: tar, MultiWriter, gzip\<close>

text \<open>
  \<^verbatim>\<open>archive/tar\<close> is a library.  Its \<^verbatim>\<open>Writer\<close> is modelled after the Go
  implementation: the bytes still owed to the current entry (\<open>tw_nb\<close>), the
  padding owed after it (\<open>tw_pad\<close>) and the sticky error.  The encoding of a
  header into 512-byte blocks is a parameter \<open>H\<close> of type \<open>tar_encoder\<close>.
\<close>

record tar_Header =
  hdr_Name :: string
  hdr_Mode :: int
  hdr_Uid :: int
  hdr_Gid :: int
  hdr_Uname :: string
  hdr_Gname :: string
  hdr_Size :: int
  hdr_ModTime :: int
  hdr_Typeflag :: byte

type_synonym tar_encoder = "tar_Header \<Rightarrow> error + byte list"

record tarWriter =
  tw_nb :: int
  tw_pad :: nat
  tw_err :: "error option"

definition tar_NewWriter :: tarWriter where
  "tar_NewWriter = \<lparr>tw_nb = 0, tw_pad = 0, tw_err = None\<rparr>"

definition tar_Flush :: "'d writer \<Rightarrow> (tarWriter \<times> 'd) closer" where
  "tar_Flush w = (\<lambda>(tw, d).
     if tw_err tw \<noteq> None then Some (tw_err tw, tw, d)
     else if tw_nb tw > 0 then Some (Some (TarMissedWriting (tw_nb tw)), tw, d)
     else
       (case w (replicate (tw_pad tw) 0) d of
          None \<Rightarrow> None
        | Some ((_, err), d') \<Rightarrow>
            if err \<noteq> None then Some (err, tw\<lparr>tw_err := err\<rparr>, d')
            else Some (None, tw\<lparr>tw_pad := 0\<rparr>, d')))"

definition tar_WriteHeader ::
  "'d writer \<Rightarrow> tar_encoder \<Rightarrow> tar_Header \<Rightarrow> (tarWriter \<times> 'd) closer" where
  "tar_WriteHeader w H hdr td =
     (case tar_Flush w td of
        None \<Rightarrow> None
      | Some (err, tw, d) \<Rightarrow>
          if err \<noteq> None then Some (err, tw, d)
          else
            (case H hdr of
               Inl e \<Rightarrow> Some (Some e, tw, d)
             | Inr blk \<Rightarrow>
                 (case w blk d of
                    None \<Rightarrow> None
                  | Some ((_, err'), d') \<Rightarrow>
                      if err' \<noteq> None then Some (err', tw\<lparr>tw_err := err'\<rparr>, d')
                      else Some (None, tw\<lparr>tw_nb := hdr_Size hdr,
                                          tw_pad := nat ((- hdr_Size hdr) mod 512)\<rparr>, d'))))"

definition tar_Write :: "'d writer \<Rightarrow> (tarWriter \<times> 'd) writer" where
  "tar_Write w p = (\<lambda>(tw, d).
     if tw_err tw \<noteq> None then Some ((0, tw_err tw), tw, d)
     else
       let overwrite = (int (length p) > tw_nb tw);
           b = (if overwrite then take (nat (tw_nb tw)) p else p)
       in if length b > 0 then
            (case w b d of
               None \<Rightarrow> None
             | Some ((n, err), d') \<Rightarrow>
                 let tw' = tw\<lparr>tw_nb := tw_nb tw - int n\<rparr>
                 in if err \<noteq> None then Some ((n, err), tw'\<lparr>tw_err := err\<rparr>, d')
                    else if overwrite then Some ((n, Some ErrWriteTooLong), tw', d')
                    else Some ((n, None), tw', d'))
          else if overwrite then Some ((0, Some ErrWriteTooLong), tw, d)
          else Some ((0, None), tw, d))"

text \<open>Writing the two zero blocks of the trailer, while no error has occurred.\<close>

fun tar_trailer :: "'d writer \<Rightarrow> nat \<Rightarrow> error option \<Rightarrow> 'd \<Rightarrow> (error option \<times> 'd) option" where
  "tar_trailer w 0 err d = Some (err, d)"
| "tar_trailer w (Suc k) err d =
     (if err \<noteq> None then Some (err, d)
      else (case w (replicate 512 0) d of
              None \<Rightarrow> None
            | Some ((_, err'), d') \<Rightarrow> tar_trailer w k err' d'))"

definition tar_Close :: "'d writer \<Rightarrow> (tarWriter \<times> 'd) closer" where
  "tar_Close w = (\<lambda>(tw, d).
     if tw_err tw = Some ErrWriteAfterClose then Some (None, tw, d)
     else if tw_err tw \<noteq> None then Some (tw_err tw, tw, d)
     else
       (case tar_Flush w (tw, d) of
          None \<Rightarrow> None
        | Some (err, tw1, d1) \<Rightarrow>
            (case tar_trailer w 2 err d1 of
               None \<Rightarrow> None
             | Some (err', d2) \<Rightarrow> Some (err', tw1\<lparr>tw_err := Some ErrWriteAfterClose\<rparr>, d2))))"

text \<open>\<^verbatim>\<open>io.MultiWriter(bw.sha1, bw.gz)\<close>: the hash first, then the compressor; a
  short count without an error is \<^verbatim>\<open>io.ErrShortWrite\<close>.  The state is the pair of
  the bytes hashed so far and the state below the compressor.\<close>

definition tee_Write :: "'d writer \<Rightarrow> (byte list \<times> 'd) writer" where
  "tee_Write gzw p = (\<lambda>(h, d).
     let h' = h @ p
     in (case gzw p d of
           None \<Rightarrow> None
         | Some ((n, err), d') \<Rightarrow>
             if err \<noteq> None then Some ((n, err), (h', d'))
             else if n \<noteq> length p then Some ((n, Some ErrShortWrite), (h', d'))
             else Some ((length p, None), (h', d'))))"

text \<open>
  \<^verbatim>\<open>pgzip\<close> is a library.  The compressor is a parameter: a state \<open>'g\<close>, what a
  \<^verbatim>\<open>Write\<close> of \<open>p\<close> makes it send downstream (a list of writes, possibly none)
  and what \<^verbatim>\<open>Close\<close> makes it send.  As \<^verbatim>\<open>compress/gzip\<close> does, the layer
  ignores the count of a downstream write and keeps the first error.
\<close>

record 'g gzip =
  gz_init :: 'g
  gz_step :: "'g \<Rightarrow> byte list \<Rightarrow> 'g \<times> byte list list"
  gz_finish :: "'g \<Rightarrow> byte list list"

record 'g gzWriter =
  gzw_state :: 'g
  gzw_err :: "error option"
  gzw_closed :: bool

fun write_chunks :: "'d writer \<Rightarrow> byte list list \<Rightarrow> 'd \<Rightarrow> (error option \<times> 'd) option" where
  "write_chunks w [] d = Some (None, d)"
| "write_chunks w (c # cs) d =
     (case w c d of
        None \<Rightarrow> None
      | Some ((_, err), d') \<Rightarrow> if err \<noteq> None then Some (err, d') else write_chunks w cs d')"

definition gzip_Write :: "'g gzip \<Rightarrow> 'd writer \<Rightarrow> ('g gzWriter \<times> 'd) writer" where
  "gzip_Write G w p = (\<lambda>(gw, d).
     if gzw_err gw \<noteq> None then Some ((0, gzw_err gw), gw, d)
     else if gzw_closed gw then Some ((0, Some (External ''gzip: write to closed writer'')), gw, d)
     else
       let (g', out) = gz_step G (gzw_state gw) p
       in (case write_chunks w out d of
             None \<Rightarrow> None
           | Some (err, d') \<Rightarrow>
               if err \<noteq> None then Some ((0, err), gw\<lparr>gzw_state := g', gzw_err := err\<rparr>, d')
               else Some ((length p, None), gw\<lparr>gzw_state := g'\<rparr>, d')))"

definition gzip_Close :: "'g gzip \<Rightarrow> 'd writer \<Rightarrow> ('g gzWriter \<times> 'd) closer" where
  "gzip_Close G w = (\<lambda>(gw, d).
     if gzw_err gw \<noteq> None then Some (gzw_err gw, gw, d)
     else if gzw_closed gw then Some (None, gw, d)
     else
       (case write_chunks w (gz_finish G (gzw_state gw)) d of
          None \<Rightarrow> None
        | Some (err, d') \<Rightarrow> Some (err, gw\<lparr>gzw_closed := True, gzw_err := err\<rparr>, d')))"

section \<open>Manifest and metadata\<close>

record Application =
  app_Name :: string
  app_Version :: string
  app_Release :: string
  app_Comment :: string

record 'k Metadata =
  md_Name :: string
  md_Architecture :: string
  md_AWSAccountID :: string
  md_AWSRegion :: string
  md_UserKey :: "'k option"
  md_Type :: string
  md_Bundler :: Application

record valueAndAlgorithm =
  va_Algorithm :: string
  va_Value :: string

record manifestPart =
  part_Index :: int
  part_Filename :: string
  part_Digest :: valueAndAlgorithm

record manifestMachineConfig =
  mc_Architecture :: string
  mc_BlockDeviceMappings :: "(string \<times> string) list"

record manifestImage =
  img_Name :: string
  img_User :: string
  img_Type :: string
  img_Digest :: valueAndAlgorithm
  img_Size :: int
  img_BundledSize :: int
  img_EC2EncryptedKey :: valueAndAlgorithm
  img_UserEncryptedKey :: valueAndAlgorithm
  img_EC2EncryptedIV :: string
  img_UserEncryptedIV :: string
  img_Count :: int
  img_Parts :: "manifestPart list"

record manifest =
  m_Bundler :: Application
  m_MachineConfiguration :: manifestMachineConfig
  m_Image :: manifestImage

text \<open>The zero values of Go, for the fields a composite literal leaves out.\<close>

definition zero_va :: valueAndAlgorithm where
  "zero_va = \<lparr>va_Algorithm = [], va_Value = []\<rparr>"

definition toManifest :: "'k Metadata \<Rightarrow> manifest" where
  "toManifest md =
     (let m = \<lparr>m_Bundler = md_Bundler md,
               m_MachineConfiguration =
                 \<lparr>mc_Architecture = md_Architecture md, mc_BlockDeviceMappings = []\<rparr>,
               m_Image =
                 \<lparr>img_Name = md_Name md, img_User = md_AWSAccountID md, img_Type = md_Type md,
                  img_Digest = zero_va, img_Size = 0, img_BundledSize = 0,
                  img_EC2EncryptedKey = zero_va, img_UserEncryptedKey = zero_va,
                  img_EC2EncryptedIV = [], img_UserEncryptedIV = [],
                  img_Count = 0, img_Parts = []\<rparr>\<rparr>
      in if img_Type (m_Image m) = []
         then m\<lparr>m_Image := (m_Image m)\<lparr>img_Type := ''machine''\<rparr>\<rparr>
         else m)"

subsection \<open>Encrypting the secrets\<close>







section \<open>Bundle writer\<close>

text \<open>
  The fields \<^verbatim>\<open>gz\<close>, \<^verbatim>\<open>aes\<close> and \<^verbatim>\<open>cw\<close> of \<^verbatim>\<open>Writer\<close> are of the interface type
  \<^verbatim>\<open>io.WriteCloser\<close>.  \<open>Lower\<close> collects the methods that \<^verbatim>\<open>Writer\<close> calls on what
  lies below the \<^verbatim>\<open>MultiWriter\<close>, as functions on the state \<open>'d\<close> of those objects,
  with the two values that \<^verbatim>\<open>populateManifest\<close> reads there.
\<close>

record 'd Lower =
  lw_gzWrite :: "'d writer"
  lw_gzClose :: "'d closer"
  lw_aesClose :: "'d closer"
  lw_cwClose :: "'d closer"
  lw_bundledSize :: "'d \<Rightarrow> int"
  lw_files :: "'d \<Rightarrow> hashingSinkFile list"

record 'd Writer =
  bw_basename :: string
  bw_size :: int
  bw_sha1 :: "byte list"     \<comment> \<open>the bytes written to the \<^verbatim>\<open>hash.Hash\<close> \<^verbatim>\<open>bw.sha1\<close>\<close>
  bw_tar :: tarWriter
  bw_down :: 'd
  bw_trueSize :: int
  didInitialWrite :: bool
  closed :: bool
  bw_key :: "byte list"
  bw_iv :: "byte list"

text \<open>The header that \<^verbatim>\<open>doInitialWrite\<close> builds; \<open>now\<close> is \<^verbatim>\<open>time.Now()\<close>.\<close>

definition initialHeader :: "'d Writer \<Rightarrow> int \<Rightarrow> tar_Header" where
  "initialHeader bw now =
     \<lparr>hdr_Name = bw_basename bw, hdr_Mode = 420, hdr_Uid = 0, hdr_Gid = 0,
      hdr_Uname = ''root'', hdr_Gname = ''root'', hdr_Size = bw_size bw,
      hdr_ModTime = now, hdr_Typeflag = 0x30\<rparr>"

text \<open>Running a method of \<^verbatim>\<open>bw.tar\<close>, whose downstream is the \<^verbatim>\<open>MultiWriter\<close>.\<close>

definition on_tar ::
  "((tarWriter \<times> byte list \<times> 'd) \<Rightarrow> ('r \<times> tarWriter \<times> byte list \<times> 'd) option) \<Rightarrow>
     'd Writer \<Rightarrow> ('r \<times> 'd Writer) option" where
  "on_tar f bw =
     (case f (bw_tar bw, bw_sha1 bw, bw_down bw) of
        None \<Rightarrow> None
      | Some (r, tw, h, d) \<Rightarrow> Some (r, bw\<lparr>bw_tar := tw, bw_sha1 := h, bw_down := d\<rparr>))"

definition on_down :: "'d closer \<Rightarrow> 'd Writer \<Rightarrow> (error option \<times> 'd Writer) option" where
  "on_down f bw =
     (case f (bw_down bw) of
        None \<Rightarrow> None
      | Some (r, d) \<Rightarrow> Some (r, bw\<lparr>bw_down := d\<rparr>))"

definition doInitialWrite ::
  "'d Lower \<Rightarrow> tar_encoder \<Rightarrow> int \<Rightarrow> 'd Writer \<Rightarrow> (error option \<times> 'd Writer) option" where
  "doInitialWrite L H now bw =
     (let hdr = initialHeader bw now
      in (case on_tar (tar_WriteHeader (tee_Write (lw_gzWrite L)) H hdr) bw of
            None \<Rightarrow> None
          | Some (err, bw') \<Rightarrow>
              if err = None then Some (err, bw'\<lparr>didInitialWrite := True\<rparr>)
              else Some (err, bw')))"

text \<open>\<^verbatim>\<open>bw.trueSize.Write\<close>: the counting writer over \<^verbatim>\<open>bw.tar\<close>.\<close>

definition trueSize_Write :: "'d Lower \<Rightarrow> byte list \<Rightarrow> 'd Writer \<Rightarrow>
     ((nat \<times> error option) \<times> 'd Writer) option" where
  "trueSize_Write L p bw =
     (case on_tar (tar_Write (tee_Write (lw_gzWrite L)) p) bw of
        None \<Rightarrow> None
      | Some ((n, err), bw') \<Rightarrow> Some ((n, err), bw'\<lparr>bw_trueSize := bw_trueSize bw' + int n\<rparr>))"

definition Writer_Write :: "'d Lower \<Rightarrow> tar_encoder \<Rightarrow> int \<Rightarrow> 'd Writer writer" where
  "Writer_Write L H now p bw =
     (if \<not> didInitialWrite bw then
        (case doInitialWrite L H now bw of
           None \<Rightarrow> None
         | Some (err, bw') \<Rightarrow>
             if err \<noteq> None then Some ((0, err), bw') else trueSize_Write L p bw')
      else trueSize_Write L p bw)"

text \<open>A caller that writes the slices \<open>ps\<close> one after the other and stops at
  the first error.\<close>

fun Writer_Writes ::
  "'d Lower \<Rightarrow> tar_encoder \<Rightarrow> int \<Rightarrow> byte list list \<Rightarrow> 'd Writer \<Rightarrow>
     (error option \<times> 'd Writer) option" where
  "Writer_Writes L H now [] bw = Some (None, bw)"
| "Writer_Writes L H now (p # ps) bw =
     (case Writer_Write L H now p bw of
        None \<Rightarrow> None
      | Some ((_, err), bw') \<Rightarrow>
          if err \<noteq> None then Some (err, bw') else Writer_Writes L H now ps bw')"

text \<open>\<^verbatim>\<open>Close\<close>, with the slice \<^verbatim>\<open>errors\<close> as a list.\<close>

definition append_err :: "error list \<Rightarrow> error option \<Rightarrow> error list" where
  "append_err errors err = (case err of None \<Rightarrow> errors | Some e \<Rightarrow> errors @ [e])"

definition Writer_Close :: "'d Lower \<Rightarrow> 'd Writer closer" where
  "Writer_Close L bw =
     (if closed bw then Some (Some WriterClosed, bw)
      else
        (case on_tar (tar_Close (tee_Write (lw_gzWrite L))) bw of
           None \<Rightarrow> None
         | Some (e1, bw1) \<Rightarrow>
        (case on_down (lw_gzClose L) bw1 of
           None \<Rightarrow> None
         | Some (e2, bw2) \<Rightarrow>
        (case on_down (lw_aesClose L) bw2 of
           None \<Rightarrow> None
         | Some (e3, bw3) \<Rightarrow>
        (case on_down (lw_cwClose L) bw3 of
           None \<Rightarrow> None
         | Some (e4, bw4) \<Rightarrow>
             let errors = append_err (append_err (append_err (append_err [] e1) e2) e3) e4;
                 errors = (if bw_size bw4 \<noteq> bw_trueSize bw4
                           then errors @ [SizeMismatch (bw_size bw4) (bw_trueSize bw4)]
                           else errors);
                 bw5 = bw4\<lparr>closed := True\<rparr>
             in if length errors > 0 then Some (Some (errors ! 0), bw5)
                else Some (None, bw5))))))"

text \<open>What the documentation of \<^verbatim>\<open>Close\<close> promises to return: the first error
  among the results of the stages, in their order.\<close>

definition first_error :: "error option list \<Rightarrow> error option" where
  "first_error es = (case filter (\<lambda>e. e \<noteq> None) es of [] \<Rightarrow> None | e # _ \<Rightarrow> e)"

definition populateManifest :: "'d Lower \<Rightarrow> 'd Writer \<Rightarrow> manifest \<Rightarrow> manifest" where
  "populateManifest L bw m =
     (let files = lw_files L (bw_down bw);
          img = (m_Image m)
            \<lparr>img_Digest := \<lparr>va_Algorithm = ''SHA1'', va_Value = hex (sha1 (bw_sha1 bw))\<rparr>,
             img_Size := bw_trueSize bw,
             img_BundledSize := lw_bundledSize L (bw_down bw)\<rparr>;
          parts = map (\<lambda>(i, file).
                    \<lparr>part_Index = int i, part_Filename = hsf_filename file,
                     part_Digest = \<lparr>va_Algorithm = ''SHA1'', va_Value = hex (hsf_hash file)\<rparr>\<rparr>)
                  (enumerate 0 files)
      in m\<lparr>m_Image := img\<lparr>img_Parts := img_Parts img @ parts,
                             img_Count := int (length files)\<rparr>\<rparr>)"

subsection \<open>The processing chain of \<^verbatim>\<open>NewWriter\<close>\<close>

text \<open>
  Bottom-up, as \<^verbatim>\<open>NewWriter\<close> builds it: the hashing sink over the caller's
  sink \<open>S\<close>, the chunk writer, the counting writer \<^verbatim>\<open>bundledSize\<close>, the AES
  writer and the compressor.  The state below the \<^verbatim>\<open>MultiWriter\<close> is the nested
  tuple of their states.
\<close>

type_synonym ('g, 's, 'h) chain =
  "'g gzWriter \<times> aesCbcWriter \<times> int \<times> 'h hashingSinkWriter chunkWriter \<times> 's hashingSink"

definition under :: "'b closer \<Rightarrow> ('a \<times> 'b) closer" where
  "under f = (\<lambda>(a, b). case f b of None \<Rightarrow> None | Some (r, b') \<Rightarrow> Some (r, (a, b')))"

definition chain_cw :: "('s, 'h) Sink \<Rightarrow> ('h hashingSinkWriter chunkWriter \<times> 's hashingSink) writer" where
  "chain_cw S = cw_Write (hashingSink S)"

definition chain_bundledSize ::
  "('s, 'h) Sink \<Rightarrow> (int \<times> 'h hashingSinkWriter chunkWriter \<times> 's hashingSink) writer" where
  "chain_bundledSize S = counting_Write (chain_cw S)"

definition chain_aes ::
  "('s, 'h) Sink \<Rightarrow> blockcipher \<Rightarrow>
     (aesCbcWriter \<times> int \<times> 'h hashingSinkWriter chunkWriter \<times> 's hashingSink) writer" where
  "chain_aes S E = aes_Write (chain_bundledSize S) E"

definition chain :: "('s, 'h) Sink \<Rightarrow> 'g gzip \<Rightarrow> blockcipher \<Rightarrow> ('g, 's, 'h) chain Lower" where
  "chain S G E =
     \<lparr>lw_gzWrite = gzip_Write G (chain_aes S E),
      lw_gzClose = gzip_Close G (chain_aes S E),
      lw_aesClose = under (aes_Close (chain_bundledSize S) E),
      lw_cwClose = under (under (under (cw_Close (hashingSink S)))),
      lw_bundledSize = (\<lambda>(gw, a, n, cw, files, s). n),
      lw_files = (\<lambda>(gw, a, n, cw, files, s). files)\<rparr>"

text \<open>
  \<^verbatim>\<open>NewWriter\<close>.  \<open>rkey\<close> and \<open>riv\<close> are what the two calls of \<^verbatim>\<open>rand.Read\<close> give: an
  error, or the random bytes; \<^verbatim>\<open>bw.key\<close> and \<^verbatim>\<open>bw.iv\<close> are slices of 16 bytes
  whatever is read into them.  \<open>s\<close> is the state of the caller's sink.
  \<^verbatim>\<open>gzip.NewWriterLevel\<close> fails for an invalid level only.
\<close>

definition fill16 :: "byte list \<Rightarrow> byte list" where
  "fill16 bs = take 16 (bs @ replicate 16 0)"

definition NewWriter ::
  "'g gzip \<Rightarrow> error + byte list \<Rightarrow> error + byte list \<Rightarrow> string \<Rightarrow> int \<Rightarrow> 's \<Rightarrow>
     error + ('g, 's, 'h) chain Writer" where
  "NewWriter G rkey riv basename sz s =
     (case rkey of
        Inl err \<Rightarrow> Inl err
      | Inr k \<Rightarrow>
     (case riv of
        Inl err \<Rightarrow> Inl err
      | Inr i \<Rightarrow>
     (case newAes128CbcWriter (fill16 k) (fill16 i) of
        Inl err \<Rightarrow> Inl err
      | Inr aes \<Rightarrow>
          Inr \<lparr>bw_basename = basename, bw_size = sz, bw_sha1 = [], bw_tar = tar_NewWriter,
               bw_down = (\<lparr>gzw_state = gz_init G, gzw_err = None, gzw_closed = False\<rparr>,
                          aes, 0, newChunkWriter basename (10 * 1024 * 1024), [], s),
               bw_trueSize = 0, didInitialWrite = False, closed = False,
               bw_key = fill16 k, bw_iv = fill16 i\<rparr>)))"

section \<open>Stand-ins for the libraries\<close>

text \<open>
  Concrete instances of the library parameters, for running the model on
  concrete inputs.  The theorems below that speak of every bundling are proved
  for every instance of the parameters.
\<close>

subsection \<open>A USTAR header\<close>

text \<open>
  The header block that \<^verbatim>\<open>archive/tar\<close> writes in format USTAR, for a name of at
  most 100 ASCII bytes and numbers that fit their octal fields.  A field is a
  slice of fixed length of the 512-byte block.
\<close>

function octal_nat :: "nat \<Rightarrow> string" where
  "octal_nat n = (if n < 8 then [hexdigit n] else octal_nat (n div 8) @ [hexdigit (n mod 8)])"
  by pat_completeness auto
termination
  by (relation "measure id") auto

declare octal_nat.simps [simp del]

definition tar_field :: "nat \<Rightarrow> byte list \<Rightarrow> byte list" where
  "tar_field n bs = take n (bs @ replicate n 0)"

definition tar_octal :: "nat \<Rightarrow> int \<Rightarrow> byte list" where
  "tar_octal n x =
     (let s = octal_nat (nat x)
      in tar_field n (bytes_of_string (replicate (n - 1 - length s) CHR ''0'' @ s)))"

definition ustar_fields :: "tar_Header \<Rightarrow> byte list \<Rightarrow> byte list" where
  "ustar_fields hdr chksum =
     tar_field 100 (bytes_of_string (hdr_Name hdr)) @ tar_octal 8 (hdr_Mode hdr)
     @ tar_octal 8 (hdr_Uid hdr) @ tar_octal 8 (hdr_Gid hdr)
     @ tar_octal 12 (hdr_Size hdr) @ tar_octal 12 (hdr_ModTime hdr)
     @ tar_field 8 chksum @ [hdr_Typeflag hdr] @ replicate 100 0
     @ tar_field 6 (bytes_of_string ''ustar'') @ bytes_of_string ''00''
     @ tar_field 32 (bytes_of_string (hdr_Uname hdr))
     @ tar_field 32 (bytes_of_string (hdr_Gname hdr))
     @ tar_octal 8 0 @ tar_octal 8 0 @ replicate 155 0 @ replicate 12 0"

definition ustar_header :: tar_encoder where
  "ustar_header hdr =
     (if length (hdr_Name hdr) > 100 \<or> list_ex (\<lambda>c. of_char c \<ge> (128::nat)) (hdr_Name hdr)
         \<or> hdr_Size hdr < 0 \<or> hdr_Size hdr \<ge> 8 ^ 11
         \<or> hdr_ModTime hdr < 0 \<or> hdr_ModTime hdr \<ge> 8 ^ 11
         \<or> hdr_Mode hdr < 0 \<or> hdr_Mode hdr \<ge> 8 ^ 7
         \<or> hdr_Uid hdr < 0 \<or> hdr_Uid hdr \<ge> 8 ^ 7 \<or> hdr_Gid hdr < 0 \<or> hdr_Gid hdr \<ge> 8 ^ 7
         \<or> length (hdr_Uname hdr) > 32 \<or> length (hdr_Gname hdr) > 32
      then Inl (External ''archive/tar: cannot encode header'')
      else
        let chksum = sum_list (map unat (ustar_fields hdr (replicate 8 0x20)))
        in Inr (ustar_fields hdr (tar_octal 7 (int chksum) @ [0x20])))"

subsection \<open>A gzip encoder\<close>

text \<open>
  A gzip stream (RFC 1952) whose deflate blocks are stored blocks: the ten
  bytes of header on the first write, as \<^verbatim>\<open>compress/gzip\<close> sends them, and the
  blocks with the trailer (CRC-32 and length) on close.  \<^verbatim>\<open>pgzip\<close> at
  \<^verbatim>\<open>BestCompression\<close> writes other deflate blocks between the same header and
  trailer.
\<close>

definition crc32_byte :: "u32 \<Rightarrow> byte \<Rightarrow> u32" where
  "crc32_byte crc b =
     ((\<lambda>c. if bit c 0 then drop_bit 1 c XOR 0xEDB88320 else drop_bit 1 c) ^^ 8) (crc XOR ucast b)"

definition crc32 :: "byte list \<Rightarrow> u32" where
  "crc32 bs = NOT (foldl crc32_byte (NOT 0) bs)"

definition le32 :: "u32 \<Rightarrow> byte list" where
  "le32 x = rev (bytes_of_u32 x)"

definition stored_block :: "bool \<Rightarrow> byte list \<Rightarrow> byte list" where
  "stored_block final bs =
     (let len = (word_of_nat (length bs) :: 16 word)
      in [if final then 1 else 0, ucast len, ucast (drop_bit 8 len),
          ucast (NOT len), ucast (drop_bit 8 (NOT len))] @ bs)"

fun stored_blocks :: "byte list list \<Rightarrow> byte list" where
  "stored_blocks [] = stored_block True []"
| "stored_blocks [c] = stored_block True c"
| "stored_blocks (c # cs) = stored_block False c @ stored_blocks cs"

definition gzip_header :: "byte list" where
  "gzip_header = [0x1f, 0x8b, 8, 0, 0, 0, 0, 0, 2, 255]"

definition gzip_trailer :: "byte list \<Rightarrow> byte list" where
  "gzip_trailer bs = le32 (crc32 bs) @ le32 (word_of_nat (length bs))"

definition gzip_stored :: "(bool \<times> byte list) gzip" where
  "gzip_stored =
     \<lparr>gz_init = (False, []),
      gz_step = (\<lambda>(wroteHeader, bs) p.
                   ((True, bs @ p), if wroteHeader then [] else [gzip_header])),
      gz_finish = (\<lambda>(wroteHeader, bs).
                   (if wroteHeader then [] else [gzip_header])
                   @ [stored_blocks (chunks_of 65535 bs), gzip_trailer bs])\<rparr>"

subsection \<open>A block cipher, certificates and RSA\<close>

text \<open>Not AES and not RSA: functions of the right types, used where only
  the shape of the result matters.\<close>

definition xor_cipher :: blockcipher where
  "xor_cipher key b = b XOR block_of_bytes key"

subsection \<open>Sinks that fail\<close>

text \<open>Implementations of \<^verbatim>\<open>Sink\<close> whose operations return errors: one whose
  files cannot be closed, one that cannot open any file, and one whose first
  \<open>k\<close> calls of \<^verbatim>\<open>WriteBundleFile\<close> fail.\<close>

definition closeFailSink :: "(accumulatingSink, string) Sink" where
  "closeFailSink =
     accSink\<lparr>wc_Close := (\<lambda>(h, files). Some (Some (External ''close failed''), files))\<rparr>"

definition brokenSink :: "(unit, unit) Sink" where
  "brokenSink =
     \<lparr>WriteBundleFile = (\<lambda>fname s. Some (Inl (External ''cannot open''), s)),
      wc_Write = (\<lambda>p (h, s). Some ((length p, None), h, s)),
      wc_Close = (\<lambda>(h, s). Some (None, s))\<rparr>"

definition flakySink :: "(nat \<times> accumulatingSink, string) Sink" where
  "flakySink =
     \<lparr>WriteBundleFile = (\<lambda>fname (k, files).
         if k > 0 then Some (Inl (External ''cannot open''), (k - 1, files))
         else (case acc_WriteBundleFile fname files of
                 None \<Rightarrow> None
               | Some (r, files') \<Rightarrow> Some (r, (k, files')))),
      wc_Write = (\<lambda>p (h, (k, files)).
         case acc_Write p (h, files) of
           None \<Rightarrow> None
         | Some (r, h', files') \<Rightarrow> Some (r, h', (k, files'))),
      wc_Close = (\<lambda>(h, (k, files)). Some (None, (k, files)))\<rparr>"

subsection \<open>A lower chain that keeps a log\<close>

text \<open>An implementation of the methods that \<^verbatim>\<open>Writer\<close> calls below the
  \<^verbatim>\<open>MultiWriter\<close>: each call adds its name to a log, and the three \<^verbatim>\<open>Close\<close>
  return the given values.\<close>

definition logLower :: "error option \<Rightarrow> error option \<Rightarrow> error option \<Rightarrow> string list Lower" where
  "logLower e2 e3 e4 =
     \<lparr>lw_gzWrite = (\<lambda>p d. Some ((length p, None), d @ [''gz.Write''])),
      lw_gzClose = (\<lambda>d. Some (e2, d @ [''gz.Close''])),
      lw_aesClose = (\<lambda>d. Some (e3, d @ [''aes.Close''])),
      lw_cwClose = (\<lambda>d. Some (e4, d @ [''cw.Close''])),
      lw_bundledSize = (\<lambda>d. 0),
      lw_files = (\<lambda>d. [])\<rparr>"

subsection \<open>Certificates and RSA\<close>



section \<open>The state of the chain after a stream\<close>

text \<open>
  The state of an AES writer that has been given the plaintext \<open>X\<close> in any
  number of writes: the bytes after the last full block are in the buffer, and
  the chaining value is the one after the full blocks.  \<open>pkcs7\<close> is the padding
  that the specification describes for a stream of the given length.
\<close>

definition aes_after :: "blockcipher \<Rightarrow> byte list \<Rightarrow> block \<Rightarrow> byte list \<Rightarrow> aesCbcWriter" where
  "aes_after E key iv X =
     \<lparr>buffer = drop (16 * (length X div 16)) X,
      cbc = Some \<lparr>cbc_key = key, cbc_iv = snd (CryptBlocks (E key) iv X)\<rparr>\<rparr>"

definition pkcs7 :: "nat \<Rightarrow> byte list" where
  "pkcs7 len = replicate (16 - len mod 16) (word_of_nat (16 - len mod 16))"

text \<open>The counting writer over a downstream that has received the stream \<open>C\<close>
  has counted its length.\<close>

definition counted :: "(byte list \<Rightarrow> 'd \<Rightarrow> bool) \<Rightarrow> byte list \<Rightarrow> int \<times> 'd \<Rightarrow> bool" where
  "counted R C = (\<lambda>(n, d). n = int (length C) \<and> R C d)"

text \<open>The bundle writer \<open>bw\<close>, new, after it has written the header block \<open>blk\<close>
  and the payload \<open>X\<close>, with \<open>d\<close> the state below the \<^verbatim>\<open>MultiWriter\<close>.\<close>

definition bw_after :: "'d Writer \<Rightarrow> byte list \<Rightarrow> byte list \<Rightarrow> 'd \<Rightarrow> 'd Writer" where
  "bw_after bw blk X d =
     bw\<lparr>bw_tar := \<lparr>tw_nb = bw_size bw - int (length X),
                   tw_pad = nat ((- bw_size bw) mod 512), tw_err = None\<rparr>,
        bw_sha1 := blk @ X, bw_down := d, bw_trueSize := int (length X),
        didInitialWrite := True\<rparr>"

section \<open>A whole bundling\<close>

text \<open>
  What the command-line tool does with the package: it copies the image into
  the writer, closes the writer, and has \<^verbatim>\<open>WriteManifest\<close> build the manifest
  from the metadata and the closed writer; an error ends it.  The result is the
  closed writer with the manifest as \<^verbatim>\<open>populateManifest\<close> leaves it.
\<close>

definition make_bundle ::
  "'d Lower \<Rightarrow> tar_encoder \<Rightarrow> int \<Rightarrow> 'k Metadata \<Rightarrow> byte list list \<Rightarrow> 'd Writer \<Rightarrow>
     (error + 'd Writer \<times> manifest) option" where
  "make_bundle L H now md ps bw =
     (case Writer_Writes L H now ps bw of
        None \<Rightarrow> None
      | Some (Some err, bw1) \<Rightarrow> Some (Inl err)
      | Some (None, bw1) \<Rightarrow>
          (case Writer_Close L bw1 of
             None \<Rightarrow> None
           | Some (Some err, bw2) \<Rightarrow> Some (Inl err)
           | Some (None, bw2) \<Rightarrow> Some (Inr (bw2, populateManifest L bw2 (toManifest md)))))"

text \<open>
  The chunk writer \<open>nm\<close> with chunks of \<open>cs\<close> bytes over the hashing sink over
  the sink of the tests, after it has received a stream \<open>C\<close> that fits the first
  chunk: nothing is open before the first byte; after it, the file
  \<^verbatim>\<open>nm.part.0\<close> is open and holds \<open>C\<close>.
\<close>

definition cw_after ::
  "string \<Rightarrow> int \<Rightarrow> byte list \<Rightarrow>
     string hashingSinkWriter chunkWriter \<times> accumulatingSink hashingSink" where
  "cw_after nm cs C =
     (if C = [] then (newChunkWriter nm cs, ([], []))
      else (\<lparr>cw_name = nm, cw_chunkSize = cs, cur_filename = nm @ ''.part.0'',
             cur_w = Some \<lparr>hsw_name = nm @ ''.part.0'', hsw_h = C, hsw_w = nm @ ''.part.0''\<rparr>,
             cur_index = 1, cur_offset = int (length C)\<rparr>,
            ([], [(nm @ ''.part.0'', C)])))"

text \<open>What the compressor has sent downstream after the writes \<open>qs\<close>, with its
  state; and the whole stream that it sends when it is closed after them.\<close>

fun gz_steps :: "'g gzip \<Rightarrow> 'g \<Rightarrow> byte list list \<Rightarrow> 'g \<times> byte list" where
  "gz_steps G g [] = (g, [])"
| "gz_steps G g (q # qs) =
     (let (g', out) = gz_step G g q;
          (g'', rest) = gz_steps G g' qs
      in (g'', concat out @ rest))"

definition gz_stream :: "'g gzip \<Rightarrow> byte list list \<Rightarrow> byte list" where
  "gz_stream G qs =
     (let (g, X) = gz_steps G (gz_init G) qs in X @ concat (gz_finish G g))"

text \<open>The state of the chain of \<^verbatim>\<open>NewWriter\<close> over the sink of the tests after
  the compressor has been given the writes \<open>qs\<close>.\<close>

definition chain_after ::
  "'g gzip \<Rightarrow> blockcipher \<Rightarrow> byte list \<Rightarrow> block \<Rightarrow> string \<Rightarrow> byte list list \<Rightarrow>
     ('g, accumulatingSink, string) chain" where
  "chain_after G E key iv nm qs =
     (let (g, X) = gz_steps G (gz_init G) qs;
          C = fst (CryptBlocks (E key) iv X)
      in (\<lparr>gzw_state = g, gzw_err = None, gzw_closed = False\<rparr>,
          aes_after E key iv X, int (length C), cw_after nm (10 * 1024 * 1024) C))"

section \<open>Hashing sink: the record is made before the file is closed\<close>

text \<open>
  Claim C10.  Closing a file opened through the hashing sink appends the record
  of its name and SHA-1 digest to the list of the hashing sink and then closes
  the file of the underlying sink; whatever that close returns, an error
  included, the list ends with the record.
\<close>

theorem hsw_Close_records_file:
  "hsw_Close S (hsw, fs, s) = Some (err, fs', s') \<Longrightarrow>
     fs' = fs @ [\<lparr>hsf_filename = hsw_name hsw, hsf_hash = sha1 (hsw_h hsw)\<rparr>]
     \<and> wc_Close S (hsw_w hsw, s) = Some (err, s')"
  by (auto simp: hsw_Close_def Let_def split: option.splits)

theorem hsw_Close_records_file_witness:
  "hsw_Close closeFailSink
       (\<lparr>hsw_name = ''a.part.0'', hsw_h = [1, 2], hsw_w = ''a.part.0''\<rparr>,
        [], [(''a.part.0'', [1, 2])])
     = Some (Some (External ''close failed''),
         [\<lparr>hsf_filename = ''a.part.0'', hsf_hash = sha1 [1, 2]\<rparr>], [(''a.part.0'', [1, 2])])
   \<and> wc_Close closeFailSink (''a.part.0'', [(''a.part.0'', [1, 2])])
     = Some (Some (External ''close failed''), [(''a.part.0'', [1, 2])])"
proof -
  have run: "hsw_Close closeFailSink
       (\<lparr>hsw_name = ''a.part.0'', hsw_h = [1, 2], hsw_w = ''a.part.0''\<rparr>,
        [], [(''a.part.0'', [1, 2])])
     = Some (Some (External ''close failed''),
         [\<lparr>hsf_filename = ''a.part.0'', hsf_hash = sha1 [1, 2]\<rparr>], [(''a.part.0'', [1, 2])])"
    by (simp add: hsw_Close_def closeFailSink_def accSink_def)
  from hsw_Close_records_file [OF run] run show ?thesis by simp
qed

section \<open>AES writer: the count that \<^verbatim>\<open>Write\<close> returns\<close>

lemma CryptBlocks_Nil: "CryptBlocks enc iv [] = ([], iv)"
  by (simp add: CryptBlocks.simps)

text \<open>A first write of one byte is buffered and counted.\<close>

lemma aes_Write_first_byte:
  "aes_Write buffer_Write E [x] (\<lparr>buffer = [], cbc = Some c\<rparr>, d)
     = Some ((1, None), \<lparr>buffer = [x], cbc = Some c\<rparr>, d)"
  by (simp add: aes_Write_def aes_Write_rest_def writeBlocks_def buffer_Write_def CryptBlocks_Nil)

text \<open>
  Claim C2 says that a \<^verbatim>\<open>Write\<close> on an open AES writer whose downstream does
  not fail returns the length of its argument.  The code does not: with one
  byte \<open>x\<close> in the buffer, writing one more byte \<open>y\<close> to a writer over a
  \<^verbatim>\<open>bytes.Buffer\<close> buffers \<open>y\<close> and returns the count 0 with no error.  The bytes
  that extend the buffer are counted only when they complete a block.
\<close>

theorem aes_Write_short_count:
  "aes_Write buffer_Write E [y] (\<lparr>buffer = [x], cbc = Some c\<rparr>, d)
     = Some ((0, None), \<lparr>buffer = [x, y], cbc = Some c\<rparr>, d)"
  by (simp add: aes_Write_def aes_Write_rest_def writeBlocks_def buffer_Write_def CryptBlocks_Nil)

section \<open>Chunk writer: errors of the sink\<close>

lemma newChunk_broken:
  "cur_w cw = None \<Longrightarrow>
     \<exists>err cw'. newChunk brokenSink (cw, s) = Some (err, cw', s) \<and> cur_w cw' = None"
  by (simp add: newChunk_def openChunk_def brokenSink_def Let_def)

text \<open>Over the sink that cannot open a file, the loop returns nothing: by
  induction on the computation, a result would be one of the next iteration,
  which starts in the same situation.\<close>

lemma cw_Write_loop_broken:
  assumes "cw_Write_loop S p n cw s = Some y"
  shows "S = brokenSink \<longrightarrow> cur_w cw = None \<longrightarrow> p \<noteq> [] \<longrightarrow> False"
proof (rule cw_Write_loop.raw_induct
    [where P = "\<lambda>S p n cw s y. S = brokenSink \<longrightarrow> cur_w cw = None \<longrightarrow> p \<noteq> [] \<longrightarrow> False",
     OF _ assms], goal_cases)
  case (1 f S p n cw s y)
  show ?case
  proof (intro impI)
    assume S: "S = brokenSink" and w: "cur_w cw = None" and p: "p \<noteq> []"
    from newChunk_broken [OF w, of s] obtain err cw' where
      nc: "newChunk brokenSink (cw, s) = Some (err, cw', s)" and w': "cur_w cw' = None" by blast
    from 1(2) S w p nc have "f brokenSink p n cw' s = Some y"
      by (simp add: bytesRemainingInChunk_def)
    from 1(1) [OF this] w' p show False by simp
  qed
qed

text \<open>When the first \<^verbatim>\<open>WriteBundleFile\<close> fails and the second succeeds, \<^verbatim>\<open>Write\<close>
  reports success: the error is dropped, and so is the name \<^verbatim>\<open>img.part.0\<close>.\<close>

lemma cw_Write_flaky:
  "cw_Write flakySink [b] (newChunkWriter ''img'' 100, (1, []))
     = Some ((1, None),
         \<lparr>cw_name = ''img'', cw_chunkSize = 100, cur_filename = ''img.part.1'',
          cur_w = Some ''img.part.1'', cur_index = 2, cur_offset = 1\<rparr>,
         (0, [(''img.part.1'', [b])]))"
  apply (simp add: cw_Write_def newChunkWriter_def)
  apply (subst cw_Write_loop.simps)
  apply (simp add: bytesRemainingInChunk_def newChunk_def openChunk_def flakySink_def
      decimal_def decimal_nat.simps hexdigit_def)
  apply (subst cw_Write_loop.simps)
  apply (simp add: bytesRemainingInChunk_def newChunk_def openChunk_def flakySink_def
      decimal_def decimal_nat.simps hexdigit_def acc_WriteBundleFile_def)
  apply (subst cw_Write_loop.simps)
  apply (simp add: bytesRemainingInChunk_def flakySink_def acc_Write_def)
  apply (subst cw_Write_loop.simps)
  apply simp
  done

text \<open>
  Claim C3 says that the chunk writer returns every error of the sink to its
  caller at once, the error of opening the next part file included, and that
  \<^verbatim>\<open>Write\<close> always terminates.  The code drops the value of \<^verbatim>\<open>cw.newChunk()\<close>:
  over a sink whose \<^verbatim>\<open>WriteBundleFile\<close> fails every time, a \<^verbatim>\<open>Write\<close> of one byte to
  a new chunk writer opens one part file after the other and never returns.
\<close>

theorem cw_Write_open_error_not_returned:
  "cw_Write brokenSink [b] (newChunkWriter nm chunkSize, ()) = None"
proof (cases "cw_Write brokenSink [b] (newChunkWriter nm chunkSize, ())")
  case None
  then show ?thesis .
next
  case (Some y)
  then have "cw_Write_loop brokenSink [b] 0 (newChunkWriter nm chunkSize) () = Some y"
    by (simp add: cw_Write_def)
  from cw_Write_loop_broken [OF this] show ?thesis
    by (simp add: newChunkWriter_def)
qed

section \<open>Bundle writer: \<^verbatim>\<open>Close\<close>\<close>

text \<open>
  Claim C6.  \<^verbatim>\<open>Close\<close> on a bundle writer that is not closed closes the tar
  writer, then the compressor, then the AES writer, then the chunk writer, each
  on the state the stage before has left, whatever that stage returned.  It
  returns the first error among their results and the check of the size, and it
  leaves the writer closed in every case; a second \<^verbatim>\<open>Close\<close> returns the error
  "Writer is already closed".
\<close>

theorem Writer_Close_all_stages:
  assumes "\<not> closed bw"
    and "on_tar (tar_Close (tee_Write (lw_gzWrite L))) bw = Some (e1, bw1)"
    and "on_down (lw_gzClose L) bw1 = Some (e2, bw2)"
    and "on_down (lw_aesClose L) bw2 = Some (e3, bw3)"
    and "on_down (lw_cwClose L) bw3 = Some (e4, bw4)"
  shows "Writer_Close L bw =
           Some (first_error [e1, e2, e3, e4,
                   if bw_size bw4 \<noteq> bw_trueSize bw4
                   then Some (SizeMismatch (bw_size bw4) (bw_trueSize bw4)) else None],
                 bw4\<lparr>closed := True\<rparr>)
         \<and> Writer_Close L (bw4\<lparr>closed := True\<rparr>)
             = Some (Some WriterClosed, bw4\<lparr>closed := True\<rparr>)"
  using assms
  by (cases e1; cases e2; cases e3; cases e4)
     (simp_all add: Writer_Close_def first_error_def append_err_def Let_def)

text \<open>On the lower chain that keeps a log, with a compressor and an AES writer
  that fail to close: the log shows the three writes of the tar trailer and the
  three \<^verbatim>\<open>Close\<close> in their order, and the error is the one of the compressor.\<close>

theorem Writer_Close_all_stages_witness:
  "Writer_Close (logLower (Some (External ''gz'')) (Some (External ''aes'')) None)
     \<lparr>bw_basename = ''img'', bw_size = 0, bw_sha1 = [], bw_tar = tar_NewWriter, bw_down = [],
      bw_trueSize = 0, didInitialWrite = False, closed = False, bw_key = [], bw_iv = []\<rparr>
   = Some (Some (External ''gz''),
       \<lparr>bw_basename = ''img'', bw_size = 0, bw_sha1 = replicate 1024 0,
        bw_tar = \<lparr>tw_nb = 0, tw_pad = 0, tw_err = Some ErrWriteAfterClose\<rparr>,
        bw_down = [''gz.Write'', ''gz.Write'', ''gz.Write'', ''gz.Close'', ''aes.Close'',
                   ''cw.Close''],
        bw_trueSize = 0, didInitialWrite = False, closed = True, bw_key = [], bw_iv = []\<rparr>)
   \<and> Writer_Close (logLower (Some (External ''gz'')) (Some (External ''aes'')) None)
       \<lparr>bw_basename = ''img'', bw_size = 0, bw_sha1 = replicate 1024 0,
        bw_tar = \<lparr>tw_nb = 0, tw_pad = 0, tw_err = Some ErrWriteAfterClose\<rparr>,
        bw_down = [''gz.Write'', ''gz.Write'', ''gz.Write'', ''gz.Close'', ''aes.Close'',
                   ''cw.Close''],
        bw_trueSize = 0, didInitialWrite = False, closed = True, bw_key = [], bw_iv = []\<rparr>
     = Some (Some WriterClosed,
       \<lparr>bw_basename = ''img'', bw_size = 0, bw_sha1 = replicate 1024 0,
        bw_tar = \<lparr>tw_nb = 0, tw_pad = 0, tw_err = Some ErrWriteAfterClose\<rparr>,
        bw_down = [''gz.Write'', ''gz.Write'', ''gz.Write'', ''gz.Close'', ''aes.Close'',
                   ''cw.Close''],
        bw_trueSize = 0, didInitialWrite = False, closed = True, bw_key = [], bw_iv = []\<rparr>)"
proof -
  let ?L = "logLower (Some (External ''gz'')) (Some (External ''aes'')) None"
  let ?bw = "\<lparr>bw_basename = ''img'', bw_size = 0, bw_sha1 = [], bw_tar = tar_NewWriter,
      bw_down = ([]::string list),
      bw_trueSize = 0, didInitialWrite = False, closed = False, bw_key = [], bw_iv = []\<rparr>"
  let ?bw1 = "?bw\<lparr>bw_sha1 := replicate 1024 0,
      bw_tar := \<lparr>tw_nb = 0, tw_pad = 0, tw_err = Some ErrWriteAfterClose\<rparr>,
      bw_down := [''gz.Write'', ''gz.Write'', ''gz.Write'']\<rparr>"
  let ?bw2 = "?bw1\<lparr>bw_down := [''gz.Write'', ''gz.Write'', ''gz.Write'', ''gz.Close'']\<rparr>"
  let ?bw3 = "?bw1\<lparr>bw_down := [''gz.Write'', ''gz.Write'', ''gz.Write'', ''gz.Close'',
      ''aes.Close'']\<rparr>"
  let ?bw4 = "?bw1\<lparr>bw_down := [''gz.Write'', ''gz.Write'', ''gz.Write'', ''gz.Close'',
      ''aes.Close'', ''cw.Close'']\<rparr>"
  have r: "replicate 512 (0::byte) @ replicate 512 0 = replicate 1024 0"
    by (simp add: replicate_add [symmetric])
  have h0: "\<not> closed ?bw" by simp
  have h1: "on_tar (tar_Close (tee_Write (lw_gzWrite ?L))) ?bw = Some (None, ?bw1)"
    by (simp add: on_tar_def tar_Close_def tar_Flush_def tar_NewWriter_def tee_Write_def
        logLower_def numeral_2_eq_2 r)
  have h2: "on_down (lw_gzClose ?L) ?bw1 = Some (Some (External ''gz''), ?bw2)"
    by (simp add: on_down_def logLower_def)
  have h3: "on_down (lw_aesClose ?L) ?bw2 = Some (Some (External ''aes''), ?bw3)"
    by (simp add: on_down_def logLower_def)
  have h4: "on_down (lw_cwClose ?L) ?bw3 = Some (None, ?bw4)"
    by (simp add: on_down_def logLower_def)
  from Writer_Close_all_stages [OF h0 h1 h2 h3 h4] show ?thesis
    by (simp add: first_error_def tar_NewWriter_def)
qed

section \<open>The name of the tar entry\<close>

text \<open>
  Claim C5, as amended.  The field \<^verbatim>\<open>Name\<close> of the metadata is the element
  \<^verbatim>\<open>image/name\<close> of the manifest.  The name of the tar entry is not taken from
  the metadata: it is the \<^verbatim>\<open>basename\<close> given to \<^verbatim>\<open>NewWriter\<close>.
\<close>

theorem tar_entry_name_is_basename:
  assumes "NewWriter G rkey riv basename sz s = Inr bw"
  shows "hdr_Name (initialHeader bw now) = basename
       \<and> img_Name (m_Image (toManifest md)) = md_Name md
       \<and> img_Name (m_Image (populateManifest L bw' (toManifest md))) = md_Name md"
  using assms
  by (auto simp: NewWriter_def initialHeader_def populateManifest_def toManifest_def Let_def
      split: sum.splits)

theorem tar_entry_name_is_basename_witness:
  "NewWriter gzip_stored (Inr []) (Inr []) ''disk'' 7 ([]::accumulatingSink)
     = Inr \<lparr>bw_basename = ''disk'', bw_size = 7, bw_sha1 = [], bw_tar = tar_NewWriter,
            bw_down = (\<lparr>gzw_state = (False, []::byte list), gzw_err = None, gzw_closed = False\<rparr>,
                       \<lparr>buffer = [], cbc = Some \<lparr>cbc_key = fill16 [],
                                                  cbc_iv = block_of_bytes (fill16 [])\<rparr>\<rparr>,
                       0, newChunkWriter ''disk'' (10 * 1024 * 1024) :: string hashingSinkWriter chunkWriter,
                       [], []),
            bw_trueSize = 0, didInitialWrite = False, closed = False,
            bw_key = fill16 [], bw_iv = fill16 []\<rparr>
   \<and> hdr_Name (initialHeader
        (\<lparr>bw_basename = ''disk'', bw_size = 7, bw_sha1 = [], bw_tar = tar_NewWriter,
          bw_down = (\<lparr>gzw_state = (False, []::byte list), gzw_err = None, gzw_closed = False\<rparr>,
                     \<lparr>buffer = [], cbc = Some \<lparr>cbc_key = fill16 [],
                                                cbc_iv = block_of_bytes (fill16 [])\<rparr>\<rparr>,
                     0::int, newChunkWriter ''disk'' (10 * 1024 * 1024) :: string hashingSinkWriter chunkWriter,
                     [], []::accumulatingSink),
          bw_trueSize = 0, didInitialWrite = False, closed = False,
          bw_key = fill16 [], bw_iv = fill16 []\<rparr>
           :: (bool \<times> byte list, accumulatingSink, string) chain Writer) 0) = ''disk''"
proof -
  have run: "NewWriter gzip_stored (Inr []) (Inr []) ''disk'' 7 ([]::accumulatingSink)
     = Inr \<lparr>bw_basename = ''disk'', bw_size = 7, bw_sha1 = [], bw_tar = tar_NewWriter,
            bw_down = (\<lparr>gzw_state = (False, []::byte list), gzw_err = None, gzw_closed = False\<rparr>,
                       \<lparr>buffer = [], cbc = Some \<lparr>cbc_key = fill16 [],
                                                  cbc_iv = block_of_bytes (fill16 [])\<rparr>\<rparr>,
                       0, newChunkWriter ''disk'' (10 * 1024 * 1024) :: string hashingSinkWriter chunkWriter,
                       [], []),
            bw_trueSize = 0, didInitialWrite = False, closed = False,
            bw_key = fill16 [], bw_iv = fill16 []\<rparr>"
    by (simp add: NewWriter_def newAes128CbcWriter_def fill16_def gzip_stored_def)
  from tar_entry_name_is_basename [OF run, THEN conjunct1, of 0] run show ?thesis by simp
qed

text \<open>The claim as the specification states it fails: a writer made with the
  basename \<^verbatim>\<open>disk\<close> names its tar entry \<^verbatim>\<open>disk\<close>, while the manifest made from
  metadata with the name \<^verbatim>\<open>my-image\<close> has that name.\<close>

theorem tar_entry_name_counterexample:
  "hdr_Name (initialHeader
      (\<lparr>bw_basename = ''disk'', bw_size = 7, bw_sha1 = [], bw_tar = tar_NewWriter,
        bw_down = (\<lparr>gzw_state = (False, []::byte list), gzw_err = None, gzw_closed = False\<rparr>,
                   \<lparr>buffer = [], cbc = Some \<lparr>cbc_key = fill16 [],
                                              cbc_iv = block_of_bytes (fill16 [])\<rparr>\<rparr>,
                   0::int, newChunkWriter ''disk'' (10 * 1024 * 1024) :: string hashingSinkWriter chunkWriter,
                   [], []::accumulatingSink),
        bw_trueSize = 0, didInitialWrite = False, closed = False,
        bw_key = fill16 [], bw_iv = fill16 []\<rparr>
         :: (bool \<times> byte list, accumulatingSink, string) chain Writer) 0)
   \<noteq> md_Name \<lparr>md_Name = ''my-image'', md_Architecture = ''x86_64'', md_AWSAccountID = ''123456789012'',
               md_AWSRegion = ''us-east-1'', md_UserKey = None :: unit option, md_Type = [],
               md_Bundler = \<lparr>app_Name = ''ec2-ami-tools'', app_Version = ''1.5'',
                             app_Release = ''7'', app_Comment = []\<rparr>\<rparr>"
  by (simp add: initialHeader_def)

section \<open>Encrypting the secrets\<close>







section \<open>CBC encryption of a stream\<close>

lemma length_bytes_of_block: "length (bytes_of_block c) = 16"
  by (simp add: bytes_of_block_def)

lemma CryptBlocks_short: "length src < 16 \<Longrightarrow> CryptBlocks enc iv src = ([], iv)"
  by (simp add: CryptBlocks.simps)

lemma length_CryptBlocks: "length (fst (CryptBlocks enc iv src)) = 16 * (length src div 16)"
proof (induction enc iv src rule: CryptBlocks.induct)
  case (1 enc iv src)
  show ?case
  proof (cases "length src < 16")
    case True
    then show ?thesis by (simp add: CryptBlocks_short)
  next
    case False
    let ?c = "enc (block_of_bytes (take 16 src) XOR iv)"
    from False have ih: "length (fst (CryptBlocks enc ?c (drop 16 src))) = 16 * (length (drop 16 src) div 16)"
      using 1 [OF False refl] by simp
    from False have "(length src - 16) div 16 + 1 = length src div 16"
      by (simp add: le_div_geq)
    with False ih show ?thesis
      by (subst CryptBlocks.simps) (simp add: Let_def case_prod_beta length_bytes_of_block)
  qed
qed

lemma CryptBlocks_append:
  "length X mod 16 = 0 \<Longrightarrow>
     CryptBlocks enc iv (X @ Y) =
       (fst (CryptBlocks enc iv X) @ fst (CryptBlocks enc (snd (CryptBlocks enc iv X)) Y),
        snd (CryptBlocks enc (snd (CryptBlocks enc iv X)) Y))"
proof (induction enc iv X rule: CryptBlocks.induct)
  case (1 enc iv X)
  show ?case
  proof (cases "length X < 16")
    case True
    with 1(2) have "X = []" by auto
    then show ?thesis by (simp add: CryptBlocks_short)
  next
    case False
    let ?c = "enc (block_of_bytes (take 16 X) XOR iv)"
    from False 1(2) have m: "length (drop 16 X) mod 16 = 0"
      by (simp add: le_mod_geq)
    have ih: "CryptBlocks enc ?c (drop 16 X @ Y) =
       (fst (CryptBlocks enc ?c (drop 16 X)) @ fst (CryptBlocks enc (snd (CryptBlocks enc ?c (drop 16 X))) Y),
        snd (CryptBlocks enc (snd (CryptBlocks enc ?c (drop 16 X))) Y))"
      using 1(1) [OF False refl m] .
    from False have l: "\<not> length (X @ Y) < 16" by simp
    from False have t: "take 16 (X @ Y) = take 16 X" "drop 16 (X @ Y) = drop 16 X @ Y" by simp_all
    have lhs: "CryptBlocks enc iv (X @ Y) =
       (bytes_of_block ?c @ fst (CryptBlocks enc ?c (drop 16 X @ Y)), snd (CryptBlocks enc ?c (drop 16 X @ Y)))"
      using l by (subst CryptBlocks.simps) (simp add: Let_def case_prod_beta t del: take_append drop_append)
    have x: "CryptBlocks enc iv X =
       (bytes_of_block ?c @ fst (CryptBlocks enc ?c (drop 16 X)), snd (CryptBlocks enc ?c (drop 16 X)))"
      using False by (subst CryptBlocks.simps) (simp add: Let_def case_prod_beta)
    show ?thesis by (simp add: lhs x ih)
  qed
qed

lemma CryptBlocks_take:
  "CryptBlocks enc iv (take (16 * (length X div 16)) X) = CryptBlocks enc iv X"
proof -
  let ?k = "16 * (length X div 16)"
  have le: "?k \<le> length X" by simp
  have m: "length (take ?k X) mod 16 = 0" using le by (simp add: min_absorb2)
  have s: "length (drop ?k X) < 16"
    by (simp add: minus_mult_div_eq_mod)
  have "CryptBlocks enc iv X = CryptBlocks enc iv (take ?k X @ drop ?k X)" by simp
  also have "\<dots> = (fst (CryptBlocks enc iv (take ?k X)), snd (CryptBlocks enc iv (take ?k X)))"
    by (simp only: CryptBlocks_append [OF m] CryptBlocks_short [OF s]) simp
  finally show ?thesis by simp
qed

section \<open>The AES writer on a stream\<close>

text \<open>
  In the lemmas of this section the downstream writer \<open>w\<close> accepts every write
  while the stream it has received satisfies \<open>Q\<close>; \<open>R C d\<close> says that \<open>d\<close> is a
  state of the downstream objects that have received the stream \<open>C\<close>.
\<close>

lemma writeBlocks_stream:
  assumes step: "\<forall>C d p. R C d \<longrightarrow> Q (C @ p) \<longrightarrow> (\<exists>d'. w p d = Some ((length p, None), d') \<and> R (C @ p) d')"
    and al: "length X mod 16 = 0"
    and c: "cbc a = Some \<lparr>cbc_key = key, cbc_iv = snd (CryptBlocks (E key) iv X)\<rparr>"
    and R: "R (fst (CryptBlocks (E key) iv X)) d"
    and Q: "Q (fst (CryptBlocks (E key) iv (X @ p)))"
  shows "\<exists>d'. writeBlocks w E p (a, d) =
            Some ((16 * (length p div 16), None),
                  a\<lparr>cbc := Some \<lparr>cbc_key = key, cbc_iv = snd (CryptBlocks (E key) iv (X @ p))\<rparr>\<rparr>, d')
          \<and> R (fst (CryptBlocks (E key) iv (X @ p))) d'"
proof -
  let ?iv = "snd (CryptBlocks (E key) iv X)"
  let ?ct = "fst (CryptBlocks (E key) ?iv p)"
  have app: "CryptBlocks (E key) iv (X @ p) =
      (fst (CryptBlocks (E key) iv X) @ ?ct, snd (CryptBlocks (E key) ?iv p))"
    by (rule CryptBlocks_append [OF al])
  have tk: "CryptBlocks (E key) ?iv (take (length p div 16 * 16) p) = CryptBlocks (E key) ?iv p"
    using CryptBlocks_take [of "E key" ?iv p] by (simp add: mult.commute)
  from Q app have "Q (fst (CryptBlocks (E key) iv X) @ ?ct)" by simp
  with step R obtain d' where
    w: "w ?ct d = Some ((length ?ct, None), d')" and R': "R (fst (CryptBlocks (E key) iv X) @ ?ct) d'"
    by blast
  have "writeBlocks w E p (a, d) =
            Some ((16 * (length p div 16), None),
                  a\<lparr>cbc := Some \<lparr>cbc_key = key, cbc_iv = snd (CryptBlocks (E key) iv (X @ p))\<rparr>\<rparr>, d')"
    by (simp add: writeBlocks_def c tk Let_def case_prod_beta w app length_CryptBlocks)
  with R' app show ?thesis by simp
qed

lemma aes_Write_rest_stream:
  assumes step: "\<forall>C d p. R C d \<longrightarrow> Q (C @ p) \<longrightarrow> (\<exists>d'. w p d = Some ((length p, None), d') \<and> R (C @ p) d')"
    and al: "length X mod 16 = 0"
    and c: "cbc a = Some \<lparr>cbc_key = key, cbc_iv = snd (CryptBlocks (E key) iv X)\<rparr>"
    and R: "R (fst (CryptBlocks (E key) iv X)) d"
    and Q: "Q (fst (CryptBlocks (E key) iv (X @ p)))"
  shows "\<exists>d'. aes_Write_rest w E p n (a, d) =
            Some ((n + length p, None),
                  \<lparr>buffer = buffer a @ drop (16 * (length p div 16)) p,
                   cbc = Some \<lparr>cbc_key = key, cbc_iv = snd (CryptBlocks (E key) iv (X @ p))\<rparr>\<rparr>, d')
          \<and> R (fst (CryptBlocks (E key) iv (X @ p))) d'"
proof -
  from writeBlocks_stream [where R = R and Q = Q and E = E and key = key, OF step al c R Q] obtain d' where
    wb: "writeBlocks w E p (a, d) =
            Some ((16 * (length p div 16), None),
                  a\<lparr>cbc := Some \<lparr>cbc_key = key, cbc_iv = snd (CryptBlocks (E key) iv (X @ p))\<rparr>\<rparr>, d')"
    and R': "R (fst (CryptBlocks (E key) iv (X @ p))) d'" by blast
  have le: "16 * (length p div 16) \<le> length p" by simp
  show ?thesis
  proof (cases "length p > 16 * (length p div 16)")
    case True
    then have "aes_Write_rest w E p n (a, d) =
            Some ((n + length p, None),
                  \<lparr>buffer = buffer a @ drop (16 * (length p div 16)) p,
                   cbc = Some \<lparr>cbc_key = key, cbc_iv = snd (CryptBlocks (E key) iv (X @ p))\<rparr>\<rparr>, d')"
      using le by (simp add: aes_Write_rest_def wb Let_def)
    with R' show ?thesis by blast
  next
    case False
    with le have eq: "16 * (length p div 16) = length p" by simp
    then have "aes_Write_rest w E p n (a, d) =
            Some ((n + length p, None),
                  \<lparr>buffer = buffer a @ drop (16 * (length p div 16)) p,
                   cbc = Some \<lparr>cbc_key = key, cbc_iv = snd (CryptBlocks (E key) iv (X @ p))\<rparr>\<rparr>, d')"
      by (simp add: aes_Write_rest_def wb Let_def)
    with R' show ?thesis by blast
  qed
qed

lemma aligned_drop:
  assumes "length X mod 16 = 0"
  shows "drop (16 * (length (X @ q) div 16)) (X @ q) = drop (16 * (length q div 16)) q"
proof -
  from assms have "16 dvd length X" by presburger
  then obtain m where m: "length X = 16 * m" unfolding dvd_def by blast
  then have "16 * (length (X @ q) div 16) = length X + 16 * (length q div 16)"
    by (simp add: distrib_left)
  then show ?thesis by simp
qed

lemma aes_Write_empty_buffer:
  "cbc a = Some c \<Longrightarrow> buffer a = [] \<Longrightarrow> aes_Write w E p (a, d) = aes_Write_rest w E p 0 (a, d)"
  by (simp add: aes_Write_def)

lemma aes_Write_extend_buffer:
  assumes "cbc a = Some c" and "buffer a = b" and "0 < length b" and "length b + length p < 16"
  shows "aes_Write w E p (a, d) = aes_Write_rest w E [] 0 (a\<lparr>buffer := b @ p\<rparr>, d)"
proof -
  from assms have x: "16 - int (length b) > int (length p)" by simp
  from assms have n: "length b + length p \<noteq> 16" by simp
  show ?thesis
    using assms(3) by (simp add: aes_Write_def assms(1,2) x n Let_def)
qed

lemma aes_Write_fill_buffer:
  assumes "cbc a = Some c" and "buffer a = b" and "0 < length b" and "length b < 16"
    and "\<not> length b + length p < 16"
  shows "aes_Write w E p (a, d) =
     (case writeBlocks w E (b @ take (16 - length b) p) (a\<lparr>buffer := b @ take (16 - length b) p\<rparr>, d) of
        None \<Rightarrow> None
      | Some ((_, err), a2, d2) \<Rightarrow>
          if err \<noteq> None then Some ((16 - length b, err), a2\<lparr>buffer := []\<rparr>, d2)
          else aes_Write_rest w E (drop (16 - length b) p) (16 - length b) (a2\<lparr>buffer := []\<rparr>, d2))"
proof -
  from assms have x: "\<not> 16 - int (length b) > int (length p)" by simp
  from assms have nn: "\<not> 16 - int (length b) < 0" by simp
  from assms have nx: "nat (16 - int (length b)) = 16 - length b" by simp
  from assms have l: "length b + min (length p) (16 - length b) = 16" by simp
  from assms have l': "\<not> 16 < length b" by simp
  show ?thesis
    using assms(3)
    by (simp add: aes_Write_def assms(1,2) x nn nx l l' Let_def split: option.splits prod.splits)
qed

lemma aes_Write_stream:
  assumes step: "\<forall>C d p. R C d \<longrightarrow> Q (C @ p) \<longrightarrow> (\<exists>d'. w p d = Some ((length p, None), d') \<and> R (C @ p) d')"
    and pre: "\<forall>C p. Q (C @ p) \<longrightarrow> Q C"
    and R: "R (fst (CryptBlocks (E key) iv X)) d"
    and Q: "Q (fst (CryptBlocks (E key) iv (X @ p)))"
  shows "\<exists>n d'. aes_Write w E p (aes_after E key iv X, d) =
            Some ((n, None), aes_after E key iv (X @ p), d')
          \<and> R (fst (CryptBlocks (E key) iv (X @ p))) d'"
proof -
  let ?k = "16 * (length X div 16)"
  let ?X0 = "take ?k X"
  let ?b = "drop ?k X"
  let ?a = "aes_after E key iv X"
  have lb: "length ?b < 16" by (simp add: minus_mult_div_eq_mod)
  have lb': "length ?b = length X mod 16" by (simp add: minus_mult_div_eq_mod)
  have X: "X = ?X0 @ ?b" by simp
  have al0: "length ?X0 mod 16 = 0" by (simp add: min_absorb2)
  have cb0: "CryptBlocks (E key) iv ?X0 = CryptBlocks (E key) iv X" by (rule CryptBlocks_take)
  have buf: "buffer ?a = ?b" and cbc: "cbc ?a = Some \<lparr>cbc_key = key, cbc_iv = snd (CryptBlocks (E key) iv X)\<rparr>"
    by (simp_all add: aes_after_def)
  show ?thesis
  proof (cases "?b = []")
    case True
    then have al: "length X mod 16 = 0" using lb' by simp
    from aes_Write_rest_stream [where R = R and Q = Q and E = E and key = key and n = 0,
        OF step al cbc R Q]
    obtain d' where
      r: "aes_Write_rest w E p 0 (?a, d) =
            Some ((0 + length p, None),
                  \<lparr>buffer = buffer ?a @ drop (16 * (length p div 16)) p,
                   cbc = Some \<lparr>cbc_key = key, cbc_iv = snd (CryptBlocks (E key) iv (X @ p))\<rparr>\<rparr>, d')"
      and R': "R (fst (CryptBlocks (E key) iv (X @ p))) d'" by blast
    have after: "\<lparr>buffer = buffer ?a @ drop (16 * (length p div 16)) p,
                   cbc = Some \<lparr>cbc_key = key, cbc_iv = snd (CryptBlocks (E key) iv (X @ p))\<rparr>\<rparr>
                 = aes_after E key iv (X @ p)"
      using True aligned_drop [OF al, of p] by (simp add: aes_after_def buf)
    have "aes_Write w E p (?a, d) = aes_Write_rest w E p 0 (?a, d)"
      by (rule aes_Write_empty_buffer [OF cbc]) (simp add: buf True)
    with r after R' show ?thesis by simp
  next
    case False
    then have bpos: "0 < length ?b" by simp
    show ?thesis
    proof (cases "length ?b + length p < 16")
      case True
      have same: "length (X @ p) div 16 = length X div 16"
      proof -
        have "length (X @ p) = ?k + (length ?b + length p)"
          using lb' by simp
        with True show ?thesis by simp
      qed
      then have same': "(length X + length p) div 16 = length X div 16" by simp
      from same have tk: "take (16 * (length (X @ p) div 16)) (X @ p) = ?X0" by simp
      have cbp: "CryptBlocks (E key) iv (X @ p) = CryptBlocks (E key) iv X"
        using CryptBlocks_take [of "E key" iv "X @ p"] cb0 by (simp only: tk)
      let ?a1 = "?a\<lparr>buffer := ?b @ p\<rparr>"
      have c1: "cbc ?a1 = Some \<lparr>cbc_key = key, cbc_iv = snd (CryptBlocks (E key) iv ?X0)\<rparr>"
        by (simp add: cbc cb0)
      have R0: "R (fst (CryptBlocks (E key) iv ?X0)) d" using R by (simp add: cb0)
      have Q0: "Q (fst (CryptBlocks (E key) iv (?X0 @ [])))" using Q by (simp add: cbp cb0)
      from aes_Write_rest_stream [where R = R and Q = Q and E = E and key = key and n = 0,
          OF step al0 c1 R0 Q0]
      obtain d' where
        r: "aes_Write_rest w E [] 0 (?a1, d) =
              Some ((0 + length ([]::byte list), None),
                    \<lparr>buffer = buffer ?a1 @ drop (16 * (length ([]::byte list) div 16)) [],
                     cbc = Some \<lparr>cbc_key = key, cbc_iv = snd (CryptBlocks (E key) iv (?X0 @ []))\<rparr>\<rparr>, d')"
        and R': "R (fst (CryptBlocks (E key) iv (?X0 @ []))) d'" by blast
      have after: "\<lparr>buffer = buffer ?a1 @ drop (16 * (length ([]::byte list) div 16)) [],
                     cbc = Some \<lparr>cbc_key = key, cbc_iv = snd (CryptBlocks (E key) iv (?X0 @ []))\<rparr>\<rparr>
                   = aes_after E key iv (X @ p)"
        by (simp add: aes_after_def same' cbp cb0)
      have "aes_Write w E p (?a, d) = aes_Write_rest w E [] 0 (?a1, d)"
        by (rule aes_Write_extend_buffer [OF cbc buf bpos True])
      with r after R' show ?thesis by (simp add: cbp cb0)
    next
      case False
      let ?x = "16 - length ?b"
      from False lb have xle: "?x \<le> length p" by simp
      let ?X1 = "X @ take ?x p"
      let ?p1 = "drop ?x p"
      have al1: "length ?X1 mod 16 = 0"
      proof -
        have "length ?X1 = ?k + 16" using xle lb lb' by (simp add: min_absorb2)
        then show ?thesis by simp
      qed
      have Xp: "X @ p = ?X1 @ ?p1" by simp
      have X1: "?X1 = ?X0 @ (?b @ take ?x p)" by simp
      let ?a1 = "?a\<lparr>buffer := ?b @ take ?x p\<rparr>"
      have l16: "length (?b @ take ?x p) = 16" using xle lb by (simp add: min_absorb2)
      have c1: "cbc ?a1 = Some \<lparr>cbc_key = key, cbc_iv = snd (CryptBlocks (E key) iv ?X0)\<rparr>"
        by (simp add: cbc cb0)
      have R0: "R (fst (CryptBlocks (E key) iv ?X0)) d" using R by (simp add: cb0)
      have QX1: "Q (fst (CryptBlocks (E key) iv ?X1))"
      proof -
        have "fst (CryptBlocks (E key) iv (X @ p)) =
            fst (CryptBlocks (E key) iv ?X1) @ fst (CryptBlocks (E key) (snd (CryptBlocks (E key) iv ?X1)) ?p1)"
          by (subst Xp) (simp only: CryptBlocks_append [OF al1] fst_conv)
        with Q pre show ?thesis by metis
      qed
      then have Q1: "Q (fst (CryptBlocks (E key) iv (?X0 @ (?b @ take ?x p))))"
        by (simp only: X1 [symmetric])
      from writeBlocks_stream [where R = R and Q = Q and E = E and key = key,
          OF step al0 c1 R0 Q1]
      obtain d1 where
        wb: "writeBlocks w E (?b @ take ?x p) (?a1, d) =
            Some ((16 * (length (?b @ take ?x p) div 16), None),
                  ?a1\<lparr>cbc := Some \<lparr>cbc_key = key, cbc_iv = snd (CryptBlocks (E key) iv (?X0 @ (?b @ take ?x p)))\<rparr>\<rparr>, d1)"
        and R1: "R (fst (CryptBlocks (E key) iv (?X0 @ (?b @ take ?x p)))) d1" by blast
      let ?a3 = "\<lparr>buffer = [], cbc = Some \<lparr>cbc_key = key, cbc_iv = snd (CryptBlocks (E key) iv ?X1)\<rparr>\<rparr>"
      have c3: "cbc ?a3 = Some \<lparr>cbc_key = key, cbc_iv = snd (CryptBlocks (E key) iv ?X1)\<rparr>" by simp
      have R1': "R (fst (CryptBlocks (E key) iv ?X1)) d1" using R1 by (simp only: X1 [symmetric])
      have Q2: "Q (fst (CryptBlocks (E key) iv (?X1 @ ?p1)))" using Q by (simp only: Xp [symmetric])
      from aes_Write_rest_stream [where R = R and Q = Q and E = E and key = key and n = ?x,
          OF step al1 c3 R1' Q2]
      obtain d' where
        r: "aes_Write_rest w E ?p1 ?x (?a3, d1) =
              Some ((?x + length ?p1, None),
                    \<lparr>buffer = buffer ?a3 @ drop (16 * (length ?p1 div 16)) ?p1,
                     cbc = Some \<lparr>cbc_key = key, cbc_iv = snd (CryptBlocks (E key) iv (?X1 @ ?p1))\<rparr>\<rparr>, d')"
        and R': "R (fst (CryptBlocks (E key) iv (?X1 @ ?p1))) d'" by blast
      have after: "\<lparr>buffer = buffer ?a3 @ drop (16 * (length ?p1 div 16)) ?p1,
                     cbc = Some \<lparr>cbc_key = key, cbc_iv = snd (CryptBlocks (E key) iv (?X1 @ ?p1))\<rparr>\<rparr>
                   = aes_after E key iv (X @ p)"
      proof -
        have "aes_after E key iv (X @ p) = aes_after E key iv (?X1 @ ?p1)"
          by (simp only: Xp [symmetric])
        also have "\<dots> = \<lparr>buffer = buffer ?a3 @ drop (16 * (length ?p1 div 16)) ?p1,
                     cbc = Some \<lparr>cbc_key = key, cbc_iv = snd (CryptBlocks (E key) iv (?X1 @ ?p1))\<rparr>\<rparr>"
          unfolding aes_after_def
          by (simp only: aligned_drop [OF al1] aesCbcWriter.select_convs append_Nil)
        finally show ?thesis by (rule sym)
      qed
      have a3: "?a1\<lparr>cbc := Some \<lparr>cbc_key = key, cbc_iv = snd (CryptBlocks (E key) iv (?X0 @ (?b @ take ?x p)))\<rparr>,
                    buffer := []\<rparr> = ?a3"
        by (simp only: X1 [symmetric]) (simp add: aes_after_def)
      have "aes_Write w E p (?a, d) = aes_Write_rest w E ?p1 ?x (?a3, d1)"
        by (simp only: aes_Write_fill_buffer [OF cbc buf bpos lb False] wb option.case prod.case a3
            simp_thms if_False)
      with r after have "aes_Write w E p (?a, d) =
          Some ((?x + length ?p1, None), aes_after E key iv (X @ p), d')" by (simp only:)
      moreover from R' have "R (fst (CryptBlocks (E key) iv (X @ p))) d'"
        by (simp only: Xp [symmetric])
      ultimately show ?thesis by blast
    qed
  qed
qed

lemma CryptBlocks_prefix:
  "\<exists>Z. fst (CryptBlocks enc iv (A @ B)) = fst (CryptBlocks enc iv A) @ Z"
proof -
  let ?k = "16 * (length A div 16)"
  have al: "length (take ?k A) mod 16 = 0" by (simp add: min_absorb2)
  have "A @ B = take ?k A @ (drop ?k A @ B)" by simp
  then have "fst (CryptBlocks enc iv (A @ B)) = fst (CryptBlocks enc iv (take ?k A @ (drop ?k A @ B)))"
    by (simp only:)
  also have "\<dots> = fst (CryptBlocks enc iv (take ?k A))
       @ fst (CryptBlocks enc (snd (CryptBlocks enc iv (take ?k A))) (drop ?k A @ B))"
    by (simp only: CryptBlocks_append [OF al] fst_conv)
  finally show ?thesis by (simp only: CryptBlocks_take) blast
qed

lemma length_pkcs7: "length (pkcs7 n) = 16 - n mod 16"
  by (simp add: pkcs7_def)

lemma aes_Close_stream:
  assumes step: "\<forall>C d p. R C d \<longrightarrow> Q (C @ p) \<longrightarrow> (\<exists>d'. w p d = Some ((length p, None), d') \<and> R (C @ p) d')"
    and R: "R (fst (CryptBlocks (E key) iv X)) d"
    and Q: "Q (fst (CryptBlocks (E key) iv (X @ pkcs7 (length X))))"
  shows "\<exists>d'. aes_Close w E (aes_after E key iv X, d) =
            Some (None, \<lparr>buffer = drop (16 * (length X div 16)) X @ pkcs7 (length X), cbc = None\<rparr>, d')
          \<and> R (fst (CryptBlocks (E key) iv (X @ pkcs7 (length X)))) d'"
proof -
  let ?k = "16 * (length X div 16)"
  let ?X0 = "take ?k X"
  let ?b = "drop ?k X"
  let ?a = "aes_after E key iv X"
  let ?pad = "pkcs7 (length X)"
  have lb: "length ?b < 16" by (simp add: minus_mult_div_eq_mod)
  have lb': "length ?b = length X mod 16" by (simp add: minus_mult_div_eq_mod)
  have al0: "length ?X0 mod 16 = 0" by (simp add: min_absorb2)
  have cb0: "CryptBlocks (E key) iv ?X0 = CryptBlocks (E key) iv X" by (rule CryptBlocks_take)
  have buf: "buffer ?a = ?b" and cbc: "cbc ?a = Some \<lparr>cbc_key = key, cbc_iv = snd (CryptBlocks (E key) iv X)\<rparr>"
    by (simp_all add: aes_after_def)
  have pb: "(word_of_int (16 - int (length X mod 16)) :: byte) = word_of_nat (16 - length X mod 16)"
  proof -
    have "16 - int (length X mod 16) = int (16 - length X mod 16)" by simp
    then show ?thesis by (simp only: of_int_of_nat_eq)
  qed
  have pad: "replicate (16 - length ?b) (word_of_int (16 - int (length ?b)) :: byte) = ?pad"
    by (simp only: lb' pb pkcs7_def)
  let ?a1 = "?a\<lparr>buffer := ?b @ ?pad\<rparr>"
  have c1: "cbc ?a1 = Some \<lparr>cbc_key = key, cbc_iv = snd (CryptBlocks (E key) iv ?X0)\<rparr>"
    by (simp add: cbc cb0)
  have b1: "buffer ?a1 = ?b @ ?pad" by simp
  have R0: "R (fst (CryptBlocks (E key) iv ?X0)) d" using R by (simp add: cb0)
  have Xp: "?X0 @ (?b @ ?pad) = X @ ?pad" by simp
  have Q1: "Q (fst (CryptBlocks (E key) iv (?X0 @ (?b @ ?pad))))" using Q by (simp only: Xp)
  from writeBlocks_stream [where R = R and Q = Q and E = E and key = key,
      OF step al0 c1 R0 Q1]
  obtain d1 where
    wb: "writeBlocks w E (?b @ ?pad) (?a1, d) =
        Some ((16 * (length (?b @ ?pad) div 16), None),
              ?a1\<lparr>cbc := Some \<lparr>cbc_key = key, cbc_iv = snd (CryptBlocks (E key) iv (?X0 @ (?b @ ?pad)))\<rparr>\<rparr>, d1)"
    and R1: "R (fst (CryptBlocks (E key) iv (?X0 @ (?b @ ?pad)))) d1" by blast
  have "aes_Close w E (?a, d) =
      (case writeBlocks w E (?b @ ?pad) (?a1, d) of
         None \<Rightarrow> None
       | Some ((_, err), a2, d2) \<Rightarrow>
           if err \<noteq> None then Some (err, a2, d2) else Some (None, a2\<lparr>cbc := None\<rparr>, d2))"
    unfolding aes_Close_def
    by (simp only: prod.case cbc buf Let_def pad option.distinct if_False b1)
  then have "aes_Close w E (?a, d) = Some (None, \<lparr>buffer = ?b @ ?pad, cbc = None\<rparr>, d1)"
    by (simp only: wb option.case prod.case simp_thms if_False) (simp add: aes_after_def)
  with R1 show ?thesis by (simp only: Xp) blast
qed

lemma counting_Write_stream:
  assumes "\<forall>C d p. R C d \<longrightarrow> Q (C @ p) \<longrightarrow> (\<exists>d'. w p d = Some ((length p, None), d') \<and> R (C @ p) d')"
  shows "\<forall>C d p. counted R C d \<longrightarrow> Q (C @ p) \<longrightarrow>
           (\<exists>d'. counting_Write w p d = Some ((length p, None), d') \<and> counted R (C @ p) d')"
proof (intro allI impI)
  fix C d p
  assume c: "counted R C d" and q: "Q (C @ p)"
  obtain n d0 where d: "d = (n, d0)" by (cases d)
  with c have n: "n = int (length C)" and r: "R C d0" by (simp_all add: counted_def)
  from assms r q obtain d1 where w: "w p d0 = Some ((length p, None), d1)" and r1: "R (C @ p) d1"
    by blast
  have "counting_Write w p d = Some ((length p, None), (n + int (length p), d1))"
    by (simp add: counting_Write_def d w)
  moreover have "counted R (C @ p) (n + int (length p), d1)"
    by (simp add: counted_def n r1)
  ultimately show "\<exists>d'. counting_Write w p d = Some ((length p, None), d') \<and> counted R (C @ p) d'"
    by blast
qed

lemma write_chunks_aes_stream:
  assumes step: "\<forall>C d p. R C d \<longrightarrow> Q (C @ p) \<longrightarrow> (\<exists>d'. w p d = Some ((length p, None), d') \<and> R (C @ p) d')"
    and pre: "\<forall>C p. Q (C @ p) \<longrightarrow> Q C"
    and R: "R (fst (CryptBlocks (E key) iv X)) d"
    and Q: "Q (fst (CryptBlocks (E key) iv (X @ concat ps)))"
  shows "\<exists>d'. write_chunks (aes_Write w E) ps (aes_after E key iv X, d) =
            Some (None, aes_after E key iv (X @ concat ps), d')
          \<and> R (fst (CryptBlocks (E key) iv (X @ concat ps))) d'"
  using R Q
proof (induction ps arbitrary: X d)
  case Nil
  then show ?case by simp
next
  case (Cons p ps)
  have e: "X @ concat (p # ps) = (X @ p) @ concat ps" by simp
  from CryptBlocks_prefix [of "E key" iv "X @ p" "concat ps"] obtain Z where
    Z: "fst (CryptBlocks (E key) iv ((X @ p) @ concat ps)) = fst (CryptBlocks (E key) iv (X @ p)) @ Z"
    by blast
  from Cons.prems(2) have "Q (fst (CryptBlocks (E key) iv ((X @ p) @ concat ps)))"
    by (simp only: e)
  with Z pre have Qp: "Q (fst (CryptBlocks (E key) iv (X @ p)))"
    by metis
  from aes_Write_stream [where R = R and Q = Q and E = E and key = key, OF step pre Cons.prems(1) Qp]
  obtain n d1 where
    w: "aes_Write w E p (aes_after E key iv X, d) = Some ((n, None), aes_after E key iv (X @ p), d1)"
    and R1: "R (fst (CryptBlocks (E key) iv (X @ p))) d1" by blast
  from Cons.prems(2) have Q2: "Q (fst (CryptBlocks (E key) iv ((X @ p) @ concat ps)))"
    by (simp only: e)
  from Cons.IH [OF R1 Q2] obtain d' where
    r: "write_chunks (aes_Write w E) ps (aes_after E key iv (X @ p), d1) =
            Some (None, aes_after E key iv ((X @ p) @ concat ps), d')"
    and R': "R (fst (CryptBlocks (E key) iv ((X @ p) @ concat ps))) d'" by blast
  have "write_chunks (aes_Write w E) (p # ps) (aes_after E key iv X, d) =
            Some (None, aes_after E key iv ((X @ p) @ concat ps), d')"
    by (simp only: write_chunks.simps w option.case prod.case simp_thms if_False r)
  with R' show ?case by (simp only: e) blast
qed

lemma newAes128CbcWriter_after:
  "newAes128CbcWriter key iv = Inr a0 \<Longrightarrow> a0 = aes_after E key (block_of_bytes iv) []"
  by (auto simp: newAes128CbcWriter_def aes_after_def CryptBlocks_Nil split: if_splits)

text \<open>
  Claim C8.  Let the downstream of the counting writer \<^verbatim>\<open>bundledSize\<close> accept
  every write.  After any sequence of writes to a new AES writer the count is
  a multiple of 16, since only whole blocks have been written, and the buffer
  holds the fewer than 16 bytes after the last whole block.  \<^verbatim>\<open>Close\<close> then
  succeeds: it appends \<open>N = 16 - buffered_len\<close> bytes of value \<open>N\<close> to the buffer,
  with \<open>N\<close> from 1 to 16 (16 when the buffer is empty), and writes that one
  block, so that the downstream has received the CBC encryption of the padded
  plaintext and the final count, 16 more, is a multiple of 16.
\<close>

theorem aes_writes_whole_blocks:
  assumes acc: "\<forall>C d p. R C d \<longrightarrow> (\<exists>d'. w p d = Some ((length p, None), d') \<and> R (C @ p) d')"
    and R0: "R [] d0"
    and new: "newAes128CbcWriter key iv = Inr a0"
  shows "\<exists>a n d. write_chunks (aes_Write (counting_Write w) E) ps (a0, 0, d0) = Some (None, a, n, d)
          \<and> n = 16 * int (length (concat ps) div 16)
          \<and> buffer a = drop (16 * (length (concat ps) div 16)) (concat ps)
          \<and> 1 \<le> 16 - length (buffer a) \<and> 16 - length (buffer a) \<le> 16
          \<and> (\<exists>a' d'. aes_Close (counting_Write w) E (a, n, d) = Some (None, a', n + 16, d')
                \<and> cbc a' = None
                \<and> buffer a' = buffer a @ replicate (16 - length (buffer a))
                                            (word_of_nat (16 - length (buffer a)))
                \<and> R (fst (CryptBlocks (E key) (block_of_bytes iv)
                            (concat ps @ pkcs7 (length (concat ps))))) d'
                \<and> n + 16 = int (length (fst (CryptBlocks (E key) (block_of_bytes iv)
                            (concat ps @ pkcs7 (length (concat ps))))))
                \<and> (n + 16) mod 16 = 0)"
proof -
  let ?X = "concat ps"
  let ?iv = "block_of_bytes iv"
  let ?Q = "\<lambda>C::byte list. True"
  have step: "\<forall>C d p. counted R C d \<longrightarrow> ?Q (C @ p) \<longrightarrow>
           (\<exists>d'. counting_Write w p d = Some ((length p, None), d') \<and> counted R (C @ p) d')"
    by (rule counting_Write_stream) (use acc in blast)
  have pre: "\<forall>C p. ?Q (C @ p) \<longrightarrow> ?Q C" by simp
  have a0: "a0 = aes_after E key ?iv []" by (rule newAes128CbcWriter_after [OF new])
  have C0: "counted R (fst (CryptBlocks (E key) ?iv [])) (0, d0)"
    by (simp add: counted_def CryptBlocks_Nil R0)
  from write_chunks_aes_stream [where R = "counted R" and Q = ?Q and E = E and key = key,
      OF step pre C0, of ps]
  obtain nd where
    run: "write_chunks (aes_Write (counting_Write w) E) ps (aes_after E key ?iv [], 0, d0) =
            Some (None, aes_after E key ?iv ?X, nd)"
    and C1: "counted R (fst (CryptBlocks (E key) ?iv ?X)) nd" by auto
  obtain n d where nd: "nd = (n, d)" by (cases nd)
  from C1 nd have n: "n = 16 * int (length ?X div 16)"
    by (simp add: counted_def length_CryptBlocks)
  let ?a = "aes_after E key ?iv ?X"
  have buf: "buffer ?a = drop (16 * (length ?X div 16)) ?X" by (simp add: aes_after_def)
  have lb: "length (buffer ?a) = length ?X mod 16" by (simp add: buf minus_mult_div_eq_mod)
  from aes_Close_stream [where R = "counted R" and Q = ?Q and E = E and key = key,
      OF step C1]
  obtain nd' where
    cl: "aes_Close (counting_Write w) E (?a, nd) =
            Some (None, \<lparr>buffer = drop (16 * (length ?X div 16)) ?X @ pkcs7 (length ?X), cbc = None\<rparr>, nd')"
    and C2: "counted R (fst (CryptBlocks (E key) ?iv (?X @ pkcs7 (length ?X)))) nd'" by auto
  obtain n' d' where nd': "nd' = (n', d')" by (cases nd')
  have len: "length (?X @ pkcs7 (length ?X)) div 16 = length ?X div 16 + 1"
  proof -
    have "length (?X @ pkcs7 (length ?X)) = 16 * (length ?X div 16) + 16"
      by (simp add: length_pkcs7) presburger
    then show ?thesis by simp
  qed
  from C2 nd' have n': "n' = int (length (fst (CryptBlocks (E key) ?iv (?X @ pkcs7 (length ?X)))))"
    and R2: "R (fst (CryptBlocks (E key) ?iv (?X @ pkcs7 (length ?X)))) d'"
    by (simp_all add: counted_def)
  from n' have n'16: "n' = n + 16"
    by (simp only: length_CryptBlocks len n) simp
  have pad: "pkcs7 (length ?X) = replicate (16 - length (buffer ?a)) (word_of_nat (16 - length (buffer ?a)))"
    by (simp only: pkcs7_def lb)
  have m: "(n + 16) mod 16 = 0" by (simp add: n)
  have rng: "1 \<le> 16 - length (buffer ?a) \<and> 16 - length (buffer ?a) \<le> 16"
    by (simp only: lb) simp
  have close: "\<exists>a' d'. aes_Close (counting_Write w) E (?a, n, d) = Some (None, a', n + 16, d')
                \<and> cbc a' = None
                \<and> buffer a' = buffer ?a @ replicate (16 - length (buffer ?a))
                                            (word_of_nat (16 - length (buffer ?a)))
                \<and> R (fst (CryptBlocks (E key) ?iv (?X @ pkcs7 (length ?X)))) d'
                \<and> n + 16 = int (length (fst (CryptBlocks (E key) ?iv (?X @ pkcs7 (length ?X)))))
                \<and> (n + 16) mod 16 = 0"
    apply (rule exI [where x = "\<lparr>buffer = drop (16 * (length ?X div 16)) ?X @ pkcs7 (length ?X), cbc = None\<rparr>"])
    apply (rule exI [where x = d'])
    using cl nd nd' n'16 R2 n' m pad buf by simp
  show ?thesis
    apply (rule exI [where x = ?a])
    apply (rule exI [where x = n])
    apply (rule exI [where x = d])
    using run a0 nd n buf rng close by (simp only: simp_thms)
qed

theorem aes_writes_whole_blocks_witness:
  "\<exists>a n d. write_chunks (aes_Write (counting_Write buffer_Write) xor_cipher) [[1, 2, 3], [4, 5]]
       (\<lparr>buffer = [], cbc = Some \<lparr>cbc_key = replicate 16 1,
                                  cbc_iv = block_of_bytes (replicate 16 2)\<rparr>\<rparr>, 0, [])
       = Some (None, a, n, d)
     \<and> n = 0 \<and> buffer a = [1, 2, 3, 4, 5]
     \<and> (\<exists>a' d'. aes_Close (counting_Write buffer_Write) xor_cipher (a, n, d)
                   = Some (None, a', 16, d')
           \<and> cbc a' = None \<and> buffer a' = [1, 2, 3, 4, 5] @ replicate 11 11
           \<and> length d' = 16)"
proof -
  have acc: "\<forall>C d p. d = C \<longrightarrow>
      (\<exists>d'. buffer_Write p d = Some ((length p, None), d') \<and> d' = C @ p)"
    by (simp add: buffer_Write_def)
  have new: "newAes128CbcWriter (replicate 16 1) (replicate 16 2)
      = Inr \<lparr>buffer = [], cbc = Some \<lparr>cbc_key = replicate 16 1,
                                       cbc_iv = block_of_bytes (replicate 16 2)\<rparr>\<rparr>"
    by (simp add: newAes128CbcWriter_def)
  from aes_writes_whole_blocks [where R = "\<lambda>C d. d = C" and w = buffer_Write and E = xor_cipher
      and ps = "[[1, 2, 3], [4, 5]]", OF acc refl new]
  obtain a n d a' d' where
    run: "write_chunks (aes_Write (counting_Write buffer_Write) xor_cipher) [[1, 2, 3], [4, 5]]
       (\<lparr>buffer = [], cbc = Some \<lparr>cbc_key = replicate 16 1,
                                  cbc_iv = block_of_bytes (replicate 16 2)\<rparr>\<rparr>, 0, [])
       = Some (None, a, n, d)"
    and n: "n = 16 * int (length (concat [[1, 2, 3], [4, 5::byte]]) div 16)"
    and b: "buffer a = drop (16 * (length (concat [[1, 2, 3], [4, 5::byte]]) div 16))
          (concat [[1, 2, 3], [4, 5]])"
    and cl: "aes_Close (counting_Write buffer_Write) xor_cipher (a, n, d) = Some (None, a', n + 16, d')"
    and c: "cbc a' = None"
    and b': "buffer a' = buffer a @ replicate (16 - length (buffer a))
                                            (word_of_nat (16 - length (buffer a)))"
    and d': "d' = fst (CryptBlocks (xor_cipher (replicate 16 1)) (block_of_bytes (replicate 16 2))
               (concat [[1, 2, 3], [4, 5]] @ pkcs7 (length (concat [[1, 2, 3], [4, 5::byte]]))))"
    and l: "n + 16 = int (length (fst (CryptBlocks (xor_cipher (replicate 16 1))
               (block_of_bytes (replicate 16 2))
               (concat [[1, 2, 3], [4, 5]] @ pkcs7 (length (concat [[1, 2, 3], [4, 5::byte]]))))))"
    by blast
  from n have n0: "n = 0" by simp
  from b have b5: "buffer a = [1, 2, 3, 4, 5]" by simp
  from b' b5 have b16: "buffer a' = [1, 2, 3, 4, 5] @ replicate 11 11" by simp
  from l d' n0 have ld: "length d' = 16" by simp
  from cl n0 have cl0: "aes_Close (counting_Write buffer_Write) xor_cipher (a, n, d)
      = Some (None, a', 16, d')" by simp
  from run n0 b5 cl0 c b16 ld show ?thesis by blast
qed

section \<open>The tar writer and the bundle writer on a stream\<close>





text \<open>
  In the lemmas on the tar writer and the bundle writer, \<open>R qs d\<close> says that \<open>d\<close>
  is a state below the \<^verbatim>\<open>MultiWriter\<close> after the compressor has been given the
  writes \<open>qs\<close>; the compressor accepts a write while \<open>Q\<close> holds of the list of
  writes.
\<close>

lemma tee_Write_stream:
  assumes step: "\<forall>qs d p. R qs d \<longrightarrow> Q (qs @ [p]) \<longrightarrow>
            (\<exists>d'. gzw p d = Some ((length p, None), d') \<and> R (qs @ [p]) d')"
    and R: "R qs d" and Q: "Q (qs @ [p])"
  shows "\<exists>d'. tee_Write gzw p (h, d) = Some ((length p, None), (h @ p, d')) \<and> R (qs @ [p]) d'"
proof -
  from step R Q obtain d' where g: "gzw p d = Some ((length p, None), d')" and R': "R (qs @ [p]) d'"
    by blast
  have "tee_Write gzw p (h, d) = Some ((length p, None), (h @ p, d'))"
    by (simp add: tee_Write_def g)
  with R' show ?thesis by blast
qed

lemma tar_Flush_stream:
  assumes step: "\<forall>qs d p. R qs d \<longrightarrow> Q (qs @ [p]) \<longrightarrow>
            (\<exists>d'. gzw p d = Some ((length p, None), d') \<and> R (qs @ [p]) d')"
    and R: "R qs d" and Q: "Q (qs @ [replicate (tw_pad tw) 0])"
    and e: "tw_err tw = None" and nb: "tw_nb tw \<le> 0"
  shows "\<exists>d'. tar_Flush (tee_Write gzw) (tw, h, d) =
             Some (None, tw\<lparr>tw_pad := 0\<rparr>, h @ replicate (tw_pad tw) 0, d')
           \<and> R (qs @ [replicate (tw_pad tw) 0]) d'"
proof -
  from tee_Write_stream [where R = R and Q = Q, OF step R Q, of h] obtain d' where
    t: "tee_Write gzw (replicate (tw_pad tw) 0) (h, d)
          = Some ((length (replicate (tw_pad tw) (0::byte)), None), (h @ replicate (tw_pad tw) 0, d'))"
    and R': "R (qs @ [replicate (tw_pad tw) 0]) d'" by blast
  from nb have "\<not> 0 < tw_nb tw" by simp
  then have "tar_Flush (tee_Write gzw) (tw, h, d) =
             Some (None, tw\<lparr>tw_pad := 0\<rparr>, h @ replicate (tw_pad tw) 0, d')"
    by (simp add: tar_Flush_def e t)
  with R' show ?thesis by blast
qed

lemma tar_WriteHeader_stream:
  assumes step: "\<forall>qs d p. R qs d \<longrightarrow> Q (qs @ [p]) \<longrightarrow>
            (\<exists>d'. gzw p d = Some ((length p, None), d') \<and> R (qs @ [p]) d')"
    and pre: "\<forall>qs p. Q (qs @ [p]) \<longrightarrow> Q qs"
    and R: "R qs d" and Q: "Q (qs @ [[], blk])"
    and H: "H hdr = Inr blk"
  shows "\<exists>d'. tar_WriteHeader (tee_Write gzw) H hdr (tar_NewWriter, h, d) =
             Some (None, \<lparr>tw_nb = hdr_Size hdr, tw_pad = nat ((- hdr_Size hdr) mod 512),
                          tw_err = None\<rparr>, h @ blk, d')
           \<and> R (qs @ [[], blk]) d'"
proof -
  from Q have Q2: "Q ((qs @ [[]]) @ [blk])" by simp
  have Q1': "Q (qs @ [[]])" by (rule pre [rule_format, OF Q2])
  then have Q1: "Q (qs @ [replicate (tw_pad tar_NewWriter) 0])"
    by (simp add: tar_NewWriter_def)
  have e0: "tw_err tar_NewWriter = None" and nb0: "tw_nb tar_NewWriter \<le> 0"
    by (simp_all add: tar_NewWriter_def)
  from tar_Flush_stream [where R = R and Q = Q, OF step R Q1 e0 nb0, of h]
  obtain d1 where
    f: "tar_Flush (tee_Write gzw) (tar_NewWriter, h, d) =
          Some (None, tar_NewWriter\<lparr>tw_pad := 0\<rparr>, h @ replicate (tw_pad tar_NewWriter) 0, d1)"
    and R1: "R (qs @ [replicate (tw_pad tar_NewWriter) 0]) d1"
    by blast
  from f have f': "tar_Flush (tee_Write gzw) (\<lparr>tw_nb = 0, tw_pad = 0, tw_err = None\<rparr>, h, d) =
          Some (None, \<lparr>tw_nb = 0, tw_pad = 0, tw_err = None\<rparr>, h, d1)"
    by (simp add: tar_NewWriter_def)
  from R1 have R1': "R (qs @ [[]]) d1" by (simp add: tar_NewWriter_def)
  from tee_Write_stream [where R = R and Q = Q, OF step R1' Q2, of h]
  obtain d' where
    t: "tee_Write gzw blk (h, d1) = Some ((length blk, None), (h @ blk, d'))"
    and R': "R ((qs @ [[]]) @ [blk]) d'" by blast
  have "tar_WriteHeader (tee_Write gzw) H hdr (tar_NewWriter, h, d) =
             Some (None, \<lparr>tw_nb = hdr_Size hdr, tw_pad = nat ((- hdr_Size hdr) mod 512),
                          tw_err = None\<rparr>, h @ blk, d')"
    by (simp add: tar_WriteHeader_def tar_NewWriter_def f' H t)
  with R' show ?thesis by simp
qed

lemma tar_Write_stream:
  assumes step: "\<forall>qs d p. R qs d \<longrightarrow> Q (qs @ [p]) \<longrightarrow>
            (\<exists>d'. gzw p d = Some ((length p, None), d') \<and> R (qs @ [p]) d')"
    and R: "R qs d" and Q: "Q (qs @ filter (\<lambda>p. p \<noteq> []) [p])"
    and e: "tw_err tw = None" and nb: "int (length p) \<le> tw_nb tw"
  shows "\<exists>d'. tar_Write (tee_Write gzw) p (tw, h, d) =
             Some ((length p, None), tw\<lparr>tw_nb := tw_nb tw - int (length p)\<rparr>, h @ p, d')
           \<and> R (qs @ filter (\<lambda>p. p \<noteq> []) [p]) d'"
proof (cases "p = []")
  case True
  with nb have "tar_Write (tee_Write gzw) p (tw, h, d) = Some ((length p, None), tw, h @ p, d)"
    by (simp add: tar_Write_def e)
  with True R show ?thesis by simp
next
  case False
  with Q have Q': "Q (qs @ [p])" by simp
  from tee_Write_stream [where R = R and Q = Q, OF step R Q', of h]
  obtain d' where
    t: "tee_Write gzw p (h, d) = Some ((length p, None), (h @ p, d'))"
    and R': "R (qs @ [p]) d'" by blast
  from nb have no: "\<not> tw_nb tw < int (length p)" by simp
  from False have "tar_Write (tee_Write gzw) p (tw, h, d) =
             Some ((length p, None), tw\<lparr>tw_nb := tw_nb tw - int (length p)\<rparr>, h @ p, d')"
    by (simp add: tar_Write_def e no t Let_def)
  with R' False show ?thesis by simp
qed

lemma tar_Close_stream:
  assumes step: "\<forall>qs d p. R qs d \<longrightarrow> Q (qs @ [p]) \<longrightarrow>
            (\<exists>d'. gzw p d = Some ((length p, None), d') \<and> R (qs @ [p]) d')"
    and pre: "\<forall>qs p. Q (qs @ [p]) \<longrightarrow> Q qs"
    and R: "R qs d"
    and Q: "Q (qs @ [replicate (tw_pad tw) 0, replicate 512 0, replicate 512 0])"
    and e: "tw_err tw = None" and nb: "tw_nb tw = 0"
  shows "\<exists>d'. tar_Close (tee_Write gzw) (tw, h, d) =
             Some (None, tw\<lparr>tw_pad := 0, tw_err := Some ErrWriteAfterClose\<rparr>,
                   h @ replicate (tw_pad tw) 0 @ replicate 1024 0, d')
           \<and> R (qs @ [replicate (tw_pad tw) 0, replicate 512 0, replicate 512 0]) d'"
proof -
  let ?z = "replicate 512 (0::byte)"
  let ?pad = "replicate (tw_pad tw) (0::byte)"
  have a2: "qs @ [?pad, ?z, ?z] = ((qs @ [?pad]) @ [?z]) @ [?z]" by simp
  from Q have Q3: "Q (((qs @ [?pad]) @ [?z]) @ [?z])" by (simp only: a2)
  have Q2: "Q ((qs @ [?pad]) @ [?z])" by (rule pre [rule_format, OF Q3])
  have Q1: "Q (qs @ [?pad])" by (rule pre [rule_format, OF Q2])
  from nb have nb': "tw_nb tw \<le> 0" by simp
  from tar_Flush_stream [where R = R and Q = Q, OF step R Q1 e nb', of h]
  obtain d1 where
    f: "tar_Flush (tee_Write gzw) (tw, h, d) = Some (None, tw\<lparr>tw_pad := 0\<rparr>, h @ ?pad, d1)"
    and R1: "R (qs @ [?pad]) d1" by blast
  from tee_Write_stream [where R = R and Q = Q, OF step R1 Q2, of "h @ ?pad"]
  obtain d2 where
    t1: "tee_Write gzw ?z (h @ ?pad, d1) = Some ((length ?z, None), ((h @ ?pad) @ ?z, d2))"
    and R2: "R ((qs @ [?pad]) @ [?z]) d2" by blast
  from tee_Write_stream [where R = R and Q = Q, OF step R2 Q3, of "(h @ ?pad) @ ?z"]
  obtain d3 where
    t2: "tee_Write gzw ?z ((h @ ?pad) @ ?z, d2) = Some ((length ?z, None), (((h @ ?pad) @ ?z) @ ?z, d3))"
    and R3: "R (((qs @ [?pad]) @ [?z]) @ [?z]) d3" by blast
  have zz: "((h @ ?pad) @ ?z) @ ?z = h @ ?pad @ replicate 1024 0"
    by (simp add: replicate_add [symmetric])
  have tr: "tar_trailer (tee_Write gzw) 2 None (h @ ?pad, d1) = Some (None, (h @ ?pad @ replicate 1024 0, d3))"
    by (simp only: numeral_2_eq_2 tar_trailer.simps t1 t2 option.case prod.case simp_thms if_False zz)
  have "tar_Close (tee_Write gzw) (tw, h, d) =
             Some (None, tw\<lparr>tw_pad := 0, tw_err := Some ErrWriteAfterClose\<rparr>,
                   h @ ?pad @ replicate 1024 0, d3)"
    by (simp add: tar_Close_def e f tr)
  with R3 show ?thesis by (simp only: a2 [symmetric]) blast
qed

lemma Q_prefix:
  assumes pre: "\<forall>qs p. Q (qs @ [p]) \<longrightarrow> Q qs"
  shows "Q (qs @ rs) \<Longrightarrow> Q qs"
proof (induction rs rule: rev_induct)
  case Nil
  then show ?case by simp
next
  case (snoc r rs)
  from snoc.prems have "Q ((qs @ rs) @ [r])" by simp
  from pre [rule_format, OF this] snoc.IH show ?case by blast
qed

lemma Writer_Write_first:
  assumes step: "\<forall>qs d p. R qs d \<longrightarrow> Q (qs @ [p]) \<longrightarrow>
            (\<exists>d'. lw_gzWrite L p d = Some ((length p, None), d') \<and> R (qs @ [p]) d')"
    and pre: "\<forall>qs p. Q (qs @ [p]) \<longrightarrow> Q qs"
    and R: "R qs (bw_down bw)"
    and Q: "Q ((qs @ [[], blk]) @ filter (\<lambda>p. p \<noteq> []) [p])"
    and fresh: "\<not> didInitialWrite bw" "bw_tar bw = tar_NewWriter" "bw_sha1 bw = []"
      "bw_trueSize bw = 0"
    and H: "H (initialHeader bw now) = Inr blk"
    and sz: "int (length p) \<le> bw_size bw"
  shows "\<exists>d'. Writer_Write L H now p bw = Some ((length p, None), bw_after bw blk p d')
           \<and> R ((qs @ [[], blk]) @ filter (\<lambda>p. p \<noteq> []) [p]) d'"
proof -
  have Q1: "Q (qs @ [[], blk])" by (rule Q_prefix [OF pre Q])
  from tar_WriteHeader_stream [where R = R and Q = Q and H = H and hdr = "initialHeader bw now"
      and h = "bw_sha1 bw", OF step pre R Q1 H]
  obtain d1 where
    wh: "tar_WriteHeader (tee_Write (lw_gzWrite L)) H (initialHeader bw now)
           (tar_NewWriter, bw_sha1 bw, bw_down bw) =
         Some (None, \<lparr>tw_nb = hdr_Size (initialHeader bw now),
                      tw_pad = nat ((- hdr_Size (initialHeader bw now)) mod 512),
                      tw_err = None\<rparr>, bw_sha1 bw @ blk, d1)"
    and R1: "R (qs @ [[], blk]) d1" by blast
  let ?tw = "\<lparr>tw_nb = bw_size bw, tw_pad = nat ((- bw_size bw) mod 512), tw_err = None\<rparr>"
  let ?bw1 = "bw\<lparr>bw_tar := ?tw, bw_sha1 := blk, bw_down := d1, didInitialWrite := True\<rparr>"
  have init: "doInitialWrite L H now bw = Some (None, ?bw1)"
    using wh by (simp add: doInitialWrite_def on_tar_def fresh initialHeader_def)
  have e: "tw_err ?tw = None" and nb: "int (length p) \<le> tw_nb ?tw" using sz by simp_all
  from tar_Write_stream [where R = R and Q = Q, OF step R1 Q e nb, of blk]
  obtain d' where
    w: "tar_Write (tee_Write (lw_gzWrite L)) p (?tw, blk, d1) =
          Some ((length p, None), ?tw\<lparr>tw_nb := tw_nb ?tw - int (length p)\<rparr>, blk @ p, d')"
    and R': "R ((qs @ [[], blk]) @ filter (\<lambda>p. p \<noteq> []) [p]) d'" by blast
  have "trueSize_Write L p ?bw1 = Some ((length p, None), bw_after bw blk p d')"
    using w by (simp add: trueSize_Write_def on_tar_def bw_after_def fresh)
  with init fresh(1) have "Writer_Write L H now p bw = Some ((length p, None), bw_after bw blk p d')"
    by (simp add: Writer_Write_def)
  with R' show ?thesis by blast
qed

lemma Writer_Write_next:
  assumes step: "\<forall>qs d p. R qs d \<longrightarrow> Q (qs @ [p]) \<longrightarrow>
            (\<exists>d'. lw_gzWrite L p d = Some ((length p, None), d') \<and> R (qs @ [p]) d')"
    and R: "R qs d"
    and Q: "Q (qs @ filter (\<lambda>p. p \<noteq> []) [p])"
    and sz: "int (length (X @ p)) \<le> bw_size bw"
  shows "\<exists>d'. Writer_Write L H now p (bw_after bw blk X d) =
              Some ((length p, None), bw_after bw blk (X @ p) d')
           \<and> R (qs @ filter (\<lambda>p. p \<noteq> []) [p]) d'"
proof -
  let ?tw = "\<lparr>tw_nb = bw_size bw - int (length X), tw_pad = nat ((- bw_size bw) mod 512),
              tw_err = None\<rparr>"
  have e: "tw_err ?tw = None" and nb: "int (length p) \<le> tw_nb ?tw" using sz by simp_all
  from tar_Write_stream [where R = R and Q = Q, OF step R Q e nb, of "blk @ X"]
  obtain d' where
    w: "tar_Write (tee_Write (lw_gzWrite L)) p (?tw, blk @ X, d) =
          Some ((length p, None), ?tw\<lparr>tw_nb := tw_nb ?tw - int (length p)\<rparr>, (blk @ X) @ p, d')"
    and R': "R (qs @ filter (\<lambda>p. p \<noteq> []) [p]) d'" by blast
  have "trueSize_Write L p (bw_after bw blk X d) = Some ((length p, None), bw_after bw blk (X @ p) d')"
    using w by (simp add: trueSize_Write_def on_tar_def bw_after_def)
  then have "Writer_Write L H now p (bw_after bw blk X d) =
      Some ((length p, None), bw_after bw blk (X @ p) d')"
    by (simp add: Writer_Write_def bw_after_def)
  with R' show ?thesis by blast
qed

lemma Writer_Writes_next:
  assumes step: "\<forall>qs d p. R qs d \<longrightarrow> Q (qs @ [p]) \<longrightarrow>
            (\<exists>d'. lw_gzWrite L p d = Some ((length p, None), d') \<and> R (qs @ [p]) d')"
    and pre: "\<forall>qs p. Q (qs @ [p]) \<longrightarrow> Q qs"
  shows "R qs d \<Longrightarrow> Q (qs @ filter (\<lambda>p. p \<noteq> []) ps) \<Longrightarrow>
         int (length (X @ concat ps)) \<le> bw_size bw \<Longrightarrow>
         \<exists>d'. Writer_Writes L H now ps (bw_after bw blk X d) =
                 Some (None, bw_after bw blk (X @ concat ps) d')
             \<and> R (qs @ filter (\<lambda>p. p \<noteq> []) ps) d'"
proof (induction ps arbitrary: qs d X)
  case Nil
  then show ?case by auto
next
  case (Cons p ps)
  let ?ne = "\<lambda>p::byte list. p \<noteq> []"
  have f: "qs @ filter ?ne (p # ps) = (qs @ filter ?ne [p]) @ filter ?ne ps" by simp
  from Cons.prems(2) have Q2: "Q ((qs @ filter ?ne [p]) @ filter ?ne ps)" by (simp only: f)
  have Q1: "Q (qs @ filter ?ne [p])" by (rule Q_prefix [OF pre Q2])
  from Cons.prems(3) have sz1: "int (length (X @ p)) \<le> bw_size bw" by simp
  from Writer_Write_next [where R = R and Q = Q, OF step Cons.prems(1) Q1 sz1]
  obtain d1 where
    w: "Writer_Write L H now p (bw_after bw blk X d) =
          Some ((length p, None), bw_after bw blk (X @ p) d1)"
    and R1: "R (qs @ filter ?ne [p]) d1" by blast
  from Cons.prems(3) have sz2: "int (length ((X @ p) @ concat ps)) \<le> bw_size bw" by simp
  from Cons.IH [OF R1 Q2 sz2] obtain d' where
    r: "Writer_Writes L H now ps (bw_after bw blk (X @ p) d1) =
          Some (None, bw_after bw blk ((X @ p) @ concat ps) d')"
    and R': "R ((qs @ filter ?ne [p]) @ filter ?ne ps) d'" by blast
  have "Writer_Writes L H now (p # ps) (bw_after bw blk X d) =
          Some (None, bw_after bw blk (X @ concat (p # ps)) d')"
    by (simp add: w r)
  with R' show ?case by (simp only: f) blast
qed

lemma Writer_Writes_first:
  assumes step: "\<forall>qs d p. R qs d \<longrightarrow> Q (qs @ [p]) \<longrightarrow>
            (\<exists>d'. lw_gzWrite L p d = Some ((length p, None), d') \<and> R (qs @ [p]) d')"
    and pre: "\<forall>qs p. Q (qs @ [p]) \<longrightarrow> Q qs"
    and R: "R qs (bw_down bw)"
    and Q: "Q ((qs @ [[], blk]) @ filter (\<lambda>p. p \<noteq> []) (p # ps))"
    and fresh: "\<not> didInitialWrite bw" "bw_tar bw = tar_NewWriter" "bw_sha1 bw = []"
      "bw_trueSize bw = 0"
    and H: "H (initialHeader bw now) = Inr blk"
    and sz: "int (length (concat (p # ps))) \<le> bw_size bw"
  shows "\<exists>d'. Writer_Writes L H now (p # ps) bw =
              Some (None, bw_after bw blk (concat (p # ps)) d')
           \<and> R ((qs @ [[], blk]) @ filter (\<lambda>p. p \<noteq> []) (p # ps)) d'"
proof -
  let ?ne = "\<lambda>p::byte list. p \<noteq> []"
  have f: "(qs @ [[], blk]) @ filter ?ne (p # ps) = ((qs @ [[], blk]) @ filter ?ne [p]) @ filter ?ne ps"
    by simp
  from Q have Q2: "Q (((qs @ [[], blk]) @ filter ?ne [p]) @ filter ?ne ps)" by (simp only: f)
  have Q1: "Q ((qs @ [[], blk]) @ filter ?ne [p])" by (rule Q_prefix [OF pre Q2])
  from sz have sz1: "int (length p) \<le> bw_size bw" by simp
  from Writer_Write_first [where R = R and Q = Q and H = H and bw = bw and now = now,
      OF step pre R Q1 fresh H sz1]
  obtain d1 where
    w: "Writer_Write L H now p bw = Some ((length p, None), bw_after bw blk p d1)"
    and R1: "R ((qs @ [[], blk]) @ filter ?ne [p]) d1" by blast
  from sz have sz2: "int (length (p @ concat ps)) \<le> bw_size bw" by simp
  from Writer_Writes_next [where R = R and Q = Q, OF step pre R1 Q2 sz2]
  obtain d' where
    r: "Writer_Writes L H now ps (bw_after bw blk p d1) =
          Some (None, bw_after bw blk (p @ concat ps) d')"
    and R': "R (((qs @ [[], blk]) @ filter ?ne [p]) @ filter ?ne ps) d'" by blast
  have "Writer_Writes L H now (p # ps) bw = Some (None, bw_after bw blk (concat (p # ps)) d')"
    by (simp add: w r)
  with R' show ?thesis by (simp only: f) blast
qed

lemma Writer_tar_Close:
  assumes step: "\<forall>qs d p. R qs d \<longrightarrow> Q (qs @ [p]) \<longrightarrow>
            (\<exists>d'. lw_gzWrite L p d = Some ((length p, None), d') \<and> R (qs @ [p]) d')"
    and pre: "\<forall>qs p. Q (qs @ [p]) \<longrightarrow> Q qs"
    and R: "R qs (bw_down bw)"
    and Q: "Q (qs @ [replicate (tw_pad (bw_tar bw)) 0, replicate 512 0, replicate 512 0])"
    and e: "tw_err (bw_tar bw) = None" and nb: "tw_nb (bw_tar bw) = 0"
  shows "\<exists>d'. on_tar (tar_Close (tee_Write (lw_gzWrite L))) bw =
             Some (None, bw\<lparr>bw_tar := (bw_tar bw)\<lparr>tw_pad := 0, tw_err := Some ErrWriteAfterClose\<rparr>,
                            bw_sha1 := bw_sha1 bw @ replicate (tw_pad (bw_tar bw)) 0 @ replicate 1024 0,
                            bw_down := d'\<rparr>)
           \<and> R (qs @ [replicate (tw_pad (bw_tar bw)) 0, replicate 512 0, replicate 512 0]) d'"
proof -
  from tar_Close_stream [where R = R and Q = Q, OF step pre R Q e nb, of "bw_sha1 bw"]
  obtain d' where
    c: "tar_Close (tee_Write (lw_gzWrite L)) (bw_tar bw, bw_sha1 bw, bw_down bw) =
          Some (None, (bw_tar bw)\<lparr>tw_pad := 0, tw_err := Some ErrWriteAfterClose\<rparr>,
                bw_sha1 bw @ replicate (tw_pad (bw_tar bw)) 0 @ replicate 1024 0, d')"
    and R': "R (qs @ [replicate (tw_pad (bw_tar bw)) 0, replicate 512 0, replicate 512 0]) d'"
    by blast
  have "on_tar (tar_Close (tee_Write (lw_gzWrite L))) bw =
             Some (None, bw\<lparr>bw_tar := (bw_tar bw)\<lparr>tw_pad := 0, tw_err := Some ErrWriteAfterClose\<rparr>,
                            bw_sha1 := bw_sha1 bw @ replicate (tw_pad (bw_tar bw)) 0 @ replicate 1024 0,
                            bw_down := d'\<rparr>)"
    by (simp add: on_tar_def c)
  with R' show ?thesis by blast
qed

lemma on_down_fields:
  "on_down f bw = Some (e, bw') \<Longrightarrow>
     bw_sha1 bw' = bw_sha1 bw \<and> bw_trueSize bw' = bw_trueSize bw \<and> bw_size bw' = bw_size bw"
  by (auto simp: on_down_def split: option.splits)

lemma Writer_Close_unfold:
  assumes "\<not> closed bw"
    and "on_tar (tar_Close (tee_Write (lw_gzWrite L))) bw = Some (e1, bw1)"
    and "on_down (lw_gzClose L) bw1 = Some (e2, bw2)"
    and "on_down (lw_aesClose L) bw2 = Some (e3, bw3)"
    and "on_down (lw_cwClose L) bw3 = Some (e4, bw4)"
  shows "Writer_Close L bw =
           Some (first_error [e1, e2, e3, e4,
                   if bw_size bw4 \<noteq> bw_trueSize bw4
                   then Some (SizeMismatch (bw_size bw4) (bw_trueSize bw4)) else None],
                 bw4\<lparr>closed := True\<rparr>)"
  using assms
  by (cases e1; cases e2; cases e3; cases e4)
     (simp_all add: Writer_Close_def first_error_def append_err_def Let_def)

lemma Writer_Close_sha1:
  assumes nc: "\<not> closed bw"
    and t: "on_tar (tar_Close (tee_Write (lw_gzWrite L))) bw = Some (e1, bw1)"
    and c: "Writer_Close L bw = Some (e, bw')"
  shows "bw_sha1 bw' = bw_sha1 bw1"
proof -
  from c nc t obtain e2 bw2 where g: "on_down (lw_gzClose L) bw1 = Some (e2, bw2)"
    by (cases "on_down (lw_gzClose L) bw1") (simp_all add: Writer_Close_def, fast)
  from c nc t g obtain e3 bw3 where a: "on_down (lw_aesClose L) bw2 = Some (e3, bw3)"
    by (cases "on_down (lw_aesClose L) bw2") (simp_all add: Writer_Close_def, fast)
  from c nc t g a obtain e4 bw4 where w: "on_down (lw_cwClose L) bw3 = Some (e4, bw4)"
    by (cases "on_down (lw_cwClose L) bw3") (simp_all add: Writer_Close_def, fast)
  from Writer_Close_unfold [OF nc t g a w] c have "bw' = bw4\<lparr>closed := True\<rparr>" by simp
  with on_down_fields [OF g] on_down_fields [OF a] on_down_fields [OF w] show ?thesis by simp
qed

section \<open>The first write\<close>



text \<open>A bundling succeeds when the compressor accepts the writes and the three
  stages below close without an error; \<open>P\<close> is what is known of the state they
  leave.\<close>

lemma make_bundle_succeeds:
  fixes bw :: "'d Writer" and blk :: "byte list" and ps :: "byte list list"
  defines "qsf \<equiv> (if ps = [] then [] else [[], blk]) @ filter (\<lambda>p. p \<noteq> []) ps
                  @ [replicate (nat ((- bw_size bw) mod 512)) 0, replicate 512 0, replicate 512 0]"
  assumes step: "\<forall>qs d p. R qs d \<longrightarrow> Q (qs @ [p]) \<longrightarrow>
            (\<exists>d'. lw_gzWrite L p d = Some ((length p, None), d') \<and> R (qs @ [p]) d')"
    and pre: "\<forall>qs p. Q (qs @ [p]) \<longrightarrow> Q qs"
    and R: "R [] (bw_down bw)"
    and Q: "Q qsf"
    and fresh: "\<not> didInitialWrite bw" "bw_tar bw = tar_NewWriter" "bw_sha1 bw = []"
      "bw_trueSize bw = 0" "\<not> closed bw"
    and H: "ps \<noteq> [] \<longrightarrow> H (initialHeader bw now) = Inr blk"
    and sz: "int (length (concat ps)) = bw_size bw"
    and cl: "\<forall>d. R qsf d \<longrightarrow>
            (\<exists>d2 d3 d4. lw_gzClose L d = Some (None, d2) \<and> lw_aesClose L d2 = Some (None, d3)
                \<and> lw_cwClose L d3 = Some (None, d4) \<and> P d4)"
  shows "\<exists>bw2. make_bundle L H now md ps bw
                 = Some (Inr (bw2, populateManifest L bw2 (toManifest md)))
           \<and> P (bw_down bw2)
           \<and> bw_sha1 bw2 = (if ps = [] then [] else blk) @ concat ps
                 @ replicate (nat ((- bw_size bw) mod 512)) 0 @ replicate 1024 0
           \<and> bw_trueSize bw2 = bw_size bw \<and> bw_size bw2 = bw_size bw
           \<and> bw_basename bw2 = bw_basename bw \<and> closed bw2"
proof -
  let ?ne = "\<lambda>p::byte list. p \<noteq> []"
  let ?pad = "nat ((- bw_size bw) mod 512)"
  let ?hb = "if ps = [] then [] else blk"
  let ?q1 = "(if ps = [] then [] else [[], blk]) @ filter ?ne ps"
  have qsf: "qsf = ?q1 @ [replicate ?pad 0, replicate 512 0, replicate 512 0]"
    by (simp add: qsf_def)
  \<comment> \<open>the writes\<close>
  have "\<exists>bw1 d1. Writer_Writes L H now ps bw = Some (None, bw1) \<and> bw_down bw1 = d1 \<and> R ?q1 d1
          \<and> tw_err (bw_tar bw1) = None \<and> tw_nb (bw_tar bw1) = 0 \<and> tw_pad (bw_tar bw1) = ?pad
          \<and> bw_sha1 bw1 = ?hb @ concat ps \<and> bw_trueSize bw1 = bw_size bw
          \<and> bw_size bw1 = bw_size bw \<and> bw_basename bw1 = bw_basename bw \<and> \<not> closed bw1"
  proof (cases ps)
    case Nil
    with sz have "bw_size bw = 0" by simp
    with Nil R fresh show ?thesis by (simp add: tar_NewWriter_def)
  next
    case (Cons p ps')
    with H have H': "H (initialHeader bw now) = Inr blk" by simp
    from sz have sz': "int (length (concat (p # ps'))) \<le> bw_size bw" by (simp add: Cons)
    have "Q (?q1 @ [replicate ?pad 0, replicate 512 0, replicate 512 0])"
      using Q by (simp only: qsf)
    then have "Q ?q1" by (rule Q_prefix [OF pre])
    then have Q1: "Q (([] @ [[], blk]) @ filter ?ne (p # ps'))" by (simp add: Cons)
    from R have R0: "R [] (bw_down bw)" .
    from Writer_Writes_first [where R = R and Q = Q and H = H and bw = bw and now = now
        and qs = "[]", OF step pre R0 Q1 fresh(1-4) H' sz']
    obtain d1 where
      w: "Writer_Writes L H now (p # ps') bw = Some (None, bw_after bw blk (concat (p # ps')) d1)"
      and R1: "R (([] @ [[], blk]) @ filter ?ne (p # ps')) d1" by blast
    from R1 have "R ?q1 d1" by (simp add: Cons)
    with w sz fresh(5) show ?thesis by (simp add: Cons bw_after_def)
  qed
  then obtain bw1 where
    w: "Writer_Writes L H now ps bw = Some (None, bw1)" and R1: "R ?q1 (bw_down bw1)"
    and e: "tw_err (bw_tar bw1) = None" and nb: "tw_nb (bw_tar bw1) = 0"
    and pad: "tw_pad (bw_tar bw1) = ?pad"
    and h: "bw_sha1 bw1 = ?hb @ concat ps" and ts: "bw_trueSize bw1 = bw_size bw"
    and s1: "bw_size bw1 = bw_size bw" and b1: "bw_basename bw1 = bw_basename bw"
    and nc: "\<not> closed bw1" by blast
  \<comment> \<open>closing the tar writer\<close>
  have Q2: "Q (?q1 @ [replicate (tw_pad (bw_tar bw1)) 0, replicate 512 0, replicate 512 0])"
    using Q by (simp only: qsf pad)
  from Writer_tar_Close [where R = R and Q = Q, OF step pre R1 Q2 e nb]
  obtain dT where
    t: "on_tar (tar_Close (tee_Write (lw_gzWrite L))) bw1 =
          Some (None, bw1\<lparr>bw_tar := (bw_tar bw1)\<lparr>tw_pad := 0, tw_err := Some ErrWriteAfterClose\<rparr>,
                  bw_sha1 := bw_sha1 bw1 @ replicate (tw_pad (bw_tar bw1)) 0 @ replicate 1024 0,
                  bw_down := dT\<rparr>)"
    and RT: "R (?q1 @ [replicate (tw_pad (bw_tar bw1)) 0, replicate 512 0, replicate 512 0]) dT"
    by blast
  let ?bwT = "bw1\<lparr>bw_tar := (bw_tar bw1)\<lparr>tw_pad := 0, tw_err := Some ErrWriteAfterClose\<rparr>,
                  bw_sha1 := bw_sha1 bw1 @ replicate (tw_pad (bw_tar bw1)) 0 @ replicate 1024 0,
                  bw_down := dT\<rparr>"
  from RT have "R qsf dT" by (simp only: qsf pad)
  with cl obtain d2 d3 d4 where
    g: "lw_gzClose L dT = Some (None, d2)" and a: "lw_aesClose L d2 = Some (None, d3)"
    and c: "lw_cwClose L d3 = Some (None, d4)" and P: "P d4" by blast
  have og: "on_down (lw_gzClose L) ?bwT = Some (None, ?bwT\<lparr>bw_down := d2\<rparr>)"
    by (simp add: on_down_def g)
  have oa: "on_down (lw_aesClose L) (?bwT\<lparr>bw_down := d2\<rparr>) = Some (None, ?bwT\<lparr>bw_down := d3\<rparr>)"
    by (simp add: on_down_def a)
  have oc: "on_down (lw_cwClose L) (?bwT\<lparr>bw_down := d3\<rparr>) = Some (None, ?bwT\<lparr>bw_down := d4\<rparr>)"
    by (simp add: on_down_def c)
  let ?bw2 = "?bwT\<lparr>bw_down := d4, closed := True\<rparr>"
  from Writer_Close_unfold [OF nc t og oa oc]
  have close: "Writer_Close L bw1 = Some (None, ?bw2)"
    by (simp add: first_error_def ts s1)
  from w close have "make_bundle L H now md ps bw
      = Some (Inr (?bw2, populateManifest L ?bw2 (toManifest md)))"
    by (simp add: make_bundle_def)
  moreover have "P (bw_down ?bw2)" using P by simp
  moreover have "bw_sha1 ?bw2 = ?hb @ concat ps @ replicate ?pad 0 @ replicate 1024 0"
    by (simp add: h pad)
  moreover have "bw_trueSize ?bw2 = bw_size bw" "bw_size ?bw2 = bw_size bw"
    "bw_basename ?bw2 = bw_basename bw" "closed ?bw2"
    by (simp_all add: ts s1 b1)
  ultimately show ?thesis by blast
qed

section \<open>The image digest\<close>

lemma make_bundle_Inr:
  assumes "make_bundle L H now md ps bw = Some (Inr (bw2, m))"
  shows "\<exists>bw1. Writer_Writes L H now ps bw = Some (None, bw1)
            \<and> Writer_Close L bw1 = Some (None, bw2)
            \<and> m = populateManifest L bw2 (toManifest md)"
proof -
  from assms obtain e1 bw1 where w: "Writer_Writes L H now ps bw = Some (e1, bw1)"
    by (cases "Writer_Writes L H now ps bw") (auto simp: make_bundle_def)
  with assms have e1: "e1 = None" by (cases e1) (simp_all add: make_bundle_def)
  from assms w e1 obtain e2 bw2' where c: "Writer_Close L bw1 = Some (e2, bw2')"
    by (cases "Writer_Close L bw1") (auto simp: make_bundle_def)
  with assms w e1 have e2: "e2 = None" by (cases e2) (simp_all add: make_bundle_def)
  from assms w e1 c e2 have "bw2' = bw2" "m = populateManifest L bw2 (toManifest md)"
    by (auto simp: make_bundle_def)
  with w e1 c e2 show ?thesis by blast
qed

lemma populateManifest_Digest:
  "img_Digest (m_Image (populateManifest L bw m)) =
     \<lparr>va_Algorithm = ''SHA1'', va_Value = hex (sha1 (bw_sha1 bw))\<rparr>"
  by (simp add: populateManifest_def Let_def)

text \<open>
  Claim C1, as amended.  For every bundling that writes a byte stream \<open>B\<close> of the
  declared size in one or more writes, over a compressor that accepts every
  write, and that succeeds, the image digest in the manifest has the algorithm
  \<^verbatim>\<open>SHA1\<close> and is the SHA-1 of the tar stream: the header block, then \<open>B\<close>, then
  the zero padding to a multiple of 512 bytes, then the 1024 zero bytes of the
  trailer.  The hash is fed by the \<^verbatim>\<open>MultiWriter\<close> below the tar writer, so it
  includes the tar framing.
\<close>

theorem digest_is_of_tar_stream:
  assumes acc: "\<forall>p d. \<exists>d'. lw_gzWrite L p d = Some ((length p, None), d')"
    and fresh: "\<not> didInitialWrite bw" "bw_tar bw = tar_NewWriter" "bw_sha1 bw = []"
      "bw_trueSize bw = 0" "\<not> closed bw"
    and H: "H (initialHeader bw now) = Inr blk"
    and ps: "ps \<noteq> []"
    and sz: "int (length (concat ps)) = bw_size bw"
    and run: "make_bundle L H now md ps bw = Some (Inr (bw2, m))"
  shows "img_Digest (m_Image m) =
           \<lparr>va_Algorithm = ''SHA1'',
            va_Value = hex (sha1 (blk @ concat ps @ replicate (nat ((- bw_size bw) mod 512)) 0
                                  @ replicate 1024 0))\<rparr>
         \<and> bw_sha1 bw2 = blk @ concat ps @ replicate (nat ((- bw_size bw) mod 512)) 0
                            @ replicate 1024 0"
proof -
  let ?R = "\<lambda>(qs::byte list list) (d::'a). True"
  let ?Q = "\<lambda>qs::byte list list. True"
  have step: "\<forall>qs d p. ?R qs d \<longrightarrow> ?Q (qs @ [p]) \<longrightarrow>
            (\<exists>d'. lw_gzWrite L p d = Some ((length p, None), d') \<and> ?R (qs @ [p]) d')"
    using acc by simp
  have pre: "\<forall>qs p. ?Q (qs @ [p]) \<longrightarrow> ?Q qs" by simp
  from ps obtain p ps' where pps: "ps = p # ps'" by (cases ps) auto
  from sz have sz': "int (length (concat (p # ps'))) \<le> bw_size bw" by (simp add: pps)
  from Writer_Writes_first [where R = ?R and Q = ?Q and H = H and bw = bw and now = now and qs = "[]",
      OF step pre _ _ fresh(1-4) H sz']
  obtain d1 where
    w: "Writer_Writes L H now ps bw = Some (None, bw_after bw blk (concat ps) d1)"
    by (auto simp: pps)
  let ?bw1 = "bw_after bw blk (concat ps) d1"
  from make_bundle_Inr [OF run] w have
    c: "Writer_Close L ?bw1 = Some (None, bw2)"
    and m: "m = populateManifest L bw2 (toManifest md)" by auto
  have e: "tw_err (bw_tar ?bw1) = None" and nb: "tw_nb (bw_tar ?bw1) = 0"
    and nc: "\<not> closed ?bw1" and pad: "tw_pad (bw_tar ?bw1) = nat ((- bw_size bw) mod 512)"
    and h: "bw_sha1 ?bw1 = blk @ concat ps"
    using sz fresh(5) by (simp_all add: bw_after_def)
  from Writer_tar_Close [where R = ?R and Q = ?Q and bw = ?bw1 and qs = "[]", OF step pre _ _ e nb]
  obtain d2 where
    t: "on_tar (tar_Close (tee_Write (lw_gzWrite L))) ?bw1 =
          Some (None, ?bw1\<lparr>bw_tar := (bw_tar ?bw1)\<lparr>tw_pad := 0, tw_err := Some ErrWriteAfterClose\<rparr>,
                  bw_sha1 := bw_sha1 ?bw1 @ replicate (tw_pad (bw_tar ?bw1)) 0 @ replicate 1024 0,
                  bw_down := d2\<rparr>)"
    by auto
  from Writer_Close_sha1 [OF nc t c] have
    "bw_sha1 bw2 = bw_sha1 ?bw1 @ replicate (tw_pad (bw_tar ?bw1)) 0 @ replicate 1024 0"
    by simp
  then have s: "bw_sha1 bw2 = blk @ concat ps @ replicate (nat ((- bw_size bw) mod 512)) 0
                            @ replicate 1024 0"
    by (simp only: h pad append_assoc)
  with m show ?thesis by (simp only: populateManifest_Digest simp_thms)
qed

theorem digest_is_of_tar_stream_witness:
  "make_bundle (logLower None None None) ustar_header 0
     \<lparr>md_Name = ''img'', md_Architecture = ''x86_64'', md_AWSAccountID = ''123456789012'',
      md_AWSRegion = ''us-east-1'', md_UserKey = None :: unit option, md_Type = [],
      md_Bundler = \<lparr>app_Name = ''ec2-ami-tools'', app_Version = ''1.5'',
                    app_Release = ''7'', app_Comment = []\<rparr>\<rparr>
     [[1, 2, 3]]
     \<lparr>bw_basename = ''img'', bw_size = 3, bw_sha1 = [], bw_tar = tar_NewWriter, bw_down = [],
      bw_trueSize = 0, didInitialWrite = False, closed = False, bw_key = [], bw_iv = []\<rparr>
   \<noteq> None
   \<and> map_option (map_sum id (va_Value \<circ> img_Digest \<circ> m_Image \<circ> snd))
      (make_bundle (logLower None None None) ustar_header 0
         \<lparr>md_Name = ''img'', md_Architecture = ''x86_64'', md_AWSAccountID = ''123456789012'',
          md_AWSRegion = ''us-east-1'', md_UserKey = None :: unit option, md_Type = [],
          md_Bundler = \<lparr>app_Name = ''ec2-ami-tools'', app_Version = ''1.5'',
                        app_Release = ''7'', app_Comment = []\<rparr>\<rparr>
         [[1, 2, 3]]
         \<lparr>bw_basename = ''img'', bw_size = 3, bw_sha1 = [], bw_tar = tar_NewWriter, bw_down = [],
          bw_trueSize = 0, didInitialWrite = False, closed = False, bw_key = [], bw_iv = []\<rparr>)
     = Some (Inr (hex (sha1
         (ustar_fields \<lparr>hdr_Name = ''img'', hdr_Mode = 420, hdr_Uid = 0, hdr_Gid = 0,
                     hdr_Uname = ''root'', hdr_Gname = ''root'', hdr_Size = 3, hdr_ModTime = 0,
                     hdr_Typeflag = 0x30\<rparr>
                   (tar_octal 7 (int (sum_list (map unat
                      (ustar_fields \<lparr>hdr_Name = ''img'', hdr_Mode = 420, hdr_Uid = 0, hdr_Gid = 0,
                         hdr_Uname = ''root'', hdr_Gname = ''root'', hdr_Size = 3, hdr_ModTime = 0,
                         hdr_Typeflag = 0x30\<rparr> (replicate 8 0x20))))) @ [0x20])
          @ [1, 2, 3] @ replicate 509 0 @ replicate 1024 0))))"
proof -
  let ?L = "logLower None None None"
  let ?md = "\<lparr>md_Name = ''img'', md_Architecture = ''x86_64'', md_AWSAccountID = ''123456789012'',
      md_AWSRegion = ''us-east-1'', md_UserKey = None :: unit option, md_Type = [],
      md_Bundler = \<lparr>app_Name = ''ec2-ami-tools'', app_Version = ''1.5'',
                    app_Release = ''7'', app_Comment = []\<rparr>\<rparr>"
  let ?bw = "\<lparr>bw_basename = ''img'', bw_size = 3, bw_sha1 = [], bw_tar = tar_NewWriter,
      bw_down = ([]::string list),
      bw_trueSize = 0, didInitialWrite = False, closed = False, bw_key = [], bw_iv = []\<rparr>"
  let ?hdr = "\<lparr>hdr_Name = ''img'', hdr_Mode = 420, hdr_Uid = 0, hdr_Gid = 0,
                     hdr_Uname = ''root'', hdr_Gname = ''root'', hdr_Size = 3, hdr_ModTime = 0,
                     hdr_Typeflag = 0x30\<rparr>"
  let ?blk = "ustar_fields ?hdr (tar_octal 7 (int (sum_list (map unat
                      (ustar_fields ?hdr (replicate 8 0x20))))) @ [0x20])"
  let ?run = "make_bundle ?L ustar_header 0 ?md [[1, 2, 3]] ?bw"
  let ?R = "\<lambda>(qs::byte list list) (d::string list). True"
  let ?Q = "\<lambda>qs::byte list list. True"
  have acc: "\<forall>p d. \<exists>d'. lw_gzWrite ?L p d = Some ((length p, None), d')"
    by (simp add: logLower_def)
  then have step: "\<forall>qs d p. ?R qs d \<longrightarrow> ?Q (qs @ [p]) \<longrightarrow>
            (\<exists>d'. lw_gzWrite ?L p d = Some ((length p, None), d') \<and> ?R (qs @ [p]) d')"
    by simp
  have pre: "\<forall>qs p. ?Q (qs @ [p]) \<longrightarrow> ?Q qs" by simp
  have fresh: "\<not> didInitialWrite ?bw" "bw_tar ?bw = tar_NewWriter" "bw_sha1 ?bw = []"
      "bw_trueSize ?bw = 0" "\<not> closed ?bw" by simp_all
  have H: "ustar_header (initialHeader ?bw 0) = Inr ?blk"
    by (simp add: ustar_header_def initialHeader_def Let_def)
  then have H': "[[1, 2, 3::byte]] \<noteq> [] \<longrightarrow> ustar_header (initialHeader ?bw 0) = Inr ?blk" by simp
  have ps: "[[1, 2, 3::byte]] \<noteq> []" and sz: "int (length (concat [[1, 2, 3::byte]])) = bw_size ?bw"
    by simp_all
  have cl: "\<forall>d. True \<longrightarrow>
            (\<exists>d2 d3 d4. lw_gzClose ?L d = Some (None, d2) \<and> lw_aesClose ?L d2 = Some (None, d3)
                \<and> lw_cwClose ?L d3 = Some (None, d4) \<and> True)"
    by (simp add: logLower_def)
  from make_bundle_succeeds [where R = ?R and Q = ?Q and P = "\<lambda>d. True" and L = ?L
      and H = ustar_header and now = 0 and bw = ?bw and blk = ?blk and ps = "[[1, 2, 3]]"
      and md = ?md, OF step pre TrueI TrueI fresh H' sz cl]
  obtain bw2 where run: "?run = Some (Inr (bw2, populateManifest ?L bw2 (toManifest ?md)))"
    by blast
  from digest_is_of_tar_stream [where H = ustar_header and bw = ?bw and now = 0 and L = ?L,
      OF acc fresh H ps sz run]
  have "img_Digest (m_Image (populateManifest ?L bw2 (toManifest ?md))) =
           \<lparr>va_Algorithm = ''SHA1'',
            va_Value = hex (sha1 (?blk @ [1, 2, 3] @ replicate 509 0 @ replicate 1024 0))\<rparr>"
    by simp
  with run show ?thesis by simp
qed

section \<open>The chain of \<^verbatim>\<open>NewWriter\<close> over the sink of the tests\<close>

lemma decimal_0: "decimal 0 = ''0''"
  by (simp add: decimal_def decimal_nat.simps hexdigit_def)

lemma cw_Write_loop_Nil: "cw_Write_loop S [] n cw s = Some ((n, None), cw, s)"
  by (subst cw_Write_loop.simps) simp

lemma cw_Write_loop_write:
  assumes w: "cur_w cw = Some hsw" and p: "p \<noteq> []"
    and fit: "int (length p) \<le> cw_chunkSize cw - cur_offset cw"
  shows "cw_Write_loop (hashingSink accSink) p n cw (files, s) =
           Some ((n + length p, None),
                 cw\<lparr>cur_w := Some (hsw\<lparr>hsw_h := hsw_h hsw @ p\<rparr>),
                     cur_offset := cur_offset cw + int (length p)\<rparr>,
                 (files, map (\<lambda>(k, v). if k = hsw_w hsw then (k, v @ p) else (k, v)) s))"
proof -
  from p fit have pos: "cw_chunkSize cw - cur_offset cw \<noteq> 0" by auto
  let ?b = "if int (length p) < cw_chunkSize cw - cur_offset cw then int (length p)
            else cw_chunkSize cw - cur_offset cw"
  from fit have b: "nat ?b = length p" by auto
  from fit have nn: "\<not> ?b < 0" by auto
  have wr: "wc_Write (hashingSink accSink) p (hsw, (files, s)) =
      Some ((length p, None), hsw\<lparr>hsw_h := hsw_h hsw @ p\<rparr>,
            (files, map (\<lambda>(k, v). if k = hsw_w hsw then (k, v @ p) else (k, v)) s))"
    by (simp add: hashingSink_def hsw_Write_def accSink_def acc_Write_def)
  show ?thesis
    apply (subst cw_Write_loop.simps)
    using p apply (simp only: length_greater_0_conv if_True Let_def bytesRemainingInChunk_def w
        option.distinct if_False pos nn b take_all [OF order_refl] drop_all [OF order_refl]
        option.case wr prod.case simp_thms cw_Write_loop_Nil)
    done
qed

lemma cw_Write_loop_open:
  assumes p: "p \<noteq> []"
  shows "cw_Write_loop (hashingSink accSink) p n (newChunkWriter nm cs) ([], []) =
         cw_Write_loop (hashingSink accSink) p n
           \<lparr>cw_name = nm, cw_chunkSize = cs, cur_filename = nm @ ''.part.0'',
            cur_w = Some \<lparr>hsw_name = nm @ ''.part.0'', hsw_h = [], hsw_w = nm @ ''.part.0''\<rparr>,
            cur_index = 1, cur_offset = 0\<rparr>
           ([], [(nm @ ''.part.0'', [])])"
proof -
  have nc: "newChunk (hashingSink accSink) (newChunkWriter nm cs, ([], [])) =
      Some (None,
           \<lparr>cw_name = nm, cw_chunkSize = cs, cur_filename = nm @ ''.part.0'',
            cur_w = Some \<lparr>hsw_name = nm @ ''.part.0'', hsw_h = [], hsw_w = nm @ ''.part.0''\<rparr>,
            cur_index = 1, cur_offset = 0\<rparr>,
           ([], [(nm @ ''.part.0'', [])]))"
    by (simp add: newChunk_def openChunk_def newChunkWriter_def hashingSink_def
        hs_WriteBundleFile_def accSink_def acc_WriteBundleFile_def decimal_0 Let_def)
  have b0: "bytesRemainingInChunk (newChunkWriter nm cs :: string hashingSinkWriter chunkWriter) = 0"
    by (simp add: bytesRemainingInChunk_def newChunkWriter_def)
  show ?thesis
    apply (subst cw_Write_loop.simps)
    using p apply (simp only: length_greater_0_conv if_True Let_def b0 simp_thms nc option.case prod.case)
    done
qed

lemma cw_Write_one_chunk:
  assumes fit: "int (length (C @ p)) \<le> cs"
  shows "cw_Write (hashingSink accSink) p (cw_after nm cs C) =
           Some ((length p, None), cw_after nm cs (C @ p))"
proof (cases "p = []")
  case True
  then show ?thesis
    by (cases "cw_after nm cs C") (simp add: cw_Write_def cw_Write_loop_Nil)
next
  case False
  show ?thesis
  proof (cases "C = []")
    case True
    let ?cw = "\<lparr>cw_name = nm, cw_chunkSize = cs, cur_filename = nm @ ''.part.0'',
            cur_w = Some \<lparr>hsw_name = nm @ ''.part.0'', hsw_h = [], hsw_w = nm @ ''.part.0''\<rparr>,
            cur_index = 1, cur_offset = 0\<rparr>"
    have w: "cur_w ?cw = Some \<lparr>hsw_name = nm @ ''.part.0'', hsw_h = [], hsw_w = nm @ ''.part.0''\<rparr>"
      by simp
    from fit True have f: "int (length p) \<le> cw_chunkSize ?cw - cur_offset ?cw" by simp
    show ?thesis
      using False True
      by (simp add: cw_Write_def cw_after_def cw_Write_loop_open [OF False]
          cw_Write_loop_write [OF w False f])
  next
    case C: False
    let ?cw = "\<lparr>cw_name = nm, cw_chunkSize = cs, cur_filename = nm @ ''.part.0'',
             cur_w = Some \<lparr>hsw_name = nm @ ''.part.0'', hsw_h = C, hsw_w = nm @ ''.part.0''\<rparr>,
             cur_index = 1, cur_offset = int (length C)\<rparr>"
    have w: "cur_w ?cw = Some \<lparr>hsw_name = nm @ ''.part.0'', hsw_h = C, hsw_w = nm @ ''.part.0''\<rparr>"
      by simp
    from fit have f: "int (length p) \<le> cw_chunkSize ?cw - cur_offset ?cw" by simp
    show ?thesis
      using False C
      by (simp add: cw_Write_def cw_after_def cw_Write_loop_write [OF w False f])
  qed
qed

lemma cw_Close_one_chunk:
  assumes "C \<noteq> []"
  shows "cw_Close (hashingSink accSink) (cw_after nm cs C) =
           Some (None,
                 \<lparr>cw_name = nm, cw_chunkSize = cs, cur_filename = nm @ ''.part.0'',
                  cur_w = None, cur_index = 1, cur_offset = int (length C)\<rparr>,
                 ([\<lparr>hsf_filename = nm @ ''.part.0'', hsf_hash = sha1 C\<rparr>],
                  [(nm @ ''.part.0'', C)]))"
  using assms
  by (simp add: cw_Close_def cw_after_def closeChunk_def hashingSink_def hsw_Close_def
      accSink_def acc_Close_def)

lemma gz_steps_snoc:
  "gz_steps G g (qs @ [p]) =
     (fst (gz_step G (fst (gz_steps G g qs)) p),
      snd (gz_steps G g qs) @ concat (snd (gz_step G (fst (gz_steps G g qs)) p)))"
  by (induction qs arbitrary: g) (simp_all add: Let_def case_prod_beta)

lemma gz_steps_append_prefix:
  "\<exists>Z. snd (gz_steps G g (qs @ rs)) = snd (gz_steps G g qs) @ Z"
  by (induction qs arbitrary: g) (simp_all add: Let_def case_prod_beta)

lemma counted_cw_step:
  "\<forall>C d p. counted (\<lambda>C d. d = cw_after nm cs C) C d \<longrightarrow> int (length (C @ p)) \<le> cs \<longrightarrow>
     (\<exists>d'. counting_Write (cw_Write (hashingSink accSink)) p d = Some ((length p, None), d')
          \<and> counted (\<lambda>C d. d = cw_after nm cs C) (C @ p) d')"
proof (rule counting_Write_stream [where Q = "\<lambda>C. int (length C) \<le> cs"], intro allI impI)
  fix C :: "byte list" and d p
  assume "d = cw_after nm cs C" and "int (length (C @ p)) \<le> cs"
  then show "\<exists>d'. cw_Write (hashingSink accSink) p d = Some ((length p, None), d')
        \<and> d' = cw_after nm cs (C @ p)"
    by (simp add: cw_Write_one_chunk)
qed

lemma chain_aes_chunks:
  assumes fit: "int (length (fst (CryptBlocks (E key) iv (X @ concat out)))) \<le> cs"
  shows "write_chunks (aes_Write (counting_Write (cw_Write (hashingSink accSink))) E) out
           (aes_after E key iv X,
            int (length (fst (CryptBlocks (E key) iv X))),
            cw_after nm cs (fst (CryptBlocks (E key) iv X)))
         = Some (None, aes_after E key iv (X @ concat out),
                 int (length (fst (CryptBlocks (E key) iv (X @ concat out)))),
                 cw_after nm cs (fst (CryptBlocks (E key) iv (X @ concat out))))"
proof -
  let ?R = "counted (\<lambda>C d. d = cw_after nm cs C)"
  let ?Q = "\<lambda>C::byte list. int (length C) \<le> cs"
  have pre: "\<forall>C p. ?Q (C @ p) \<longrightarrow> ?Q C" by simp
  have R0: "?R (fst (CryptBlocks (E key) iv X))
      (int (length (fst (CryptBlocks (E key) iv X))), cw_after nm cs (fst (CryptBlocks (E key) iv X)))"
    by (simp add: counted_def)
  from write_chunks_aes_stream [where R = ?R and Q = ?Q and E = E and key = key,
      OF counted_cw_step pre R0 fit]
  obtain d' where
    r: "write_chunks (aes_Write (counting_Write (cw_Write (hashingSink accSink))) E) out
           (aes_after E key iv X,
            int (length (fst (CryptBlocks (E key) iv X))),
            cw_after nm cs (fst (CryptBlocks (E key) iv X)))
         = Some (None, aes_after E key iv (X @ concat out), d')"
    and R': "?R (fst (CryptBlocks (E key) iv (X @ concat out))) d'" by blast
  from R' have "d' = (int (length (fst (CryptBlocks (E key) iv (X @ concat out)))),
                 cw_after nm cs (fst (CryptBlocks (E key) iv (X @ concat out))))"
    by (cases d') (simp add: counted_def)
  with r show ?thesis by simp
qed

lemma chain_gzWrite:
  assumes fit: "int (length (fst (CryptBlocks (E key) iv (snd (gz_steps G (gz_init G) (qs @ [p]))))))
                  \<le> 10 * 1024 * 1024"
  shows "lw_gzWrite (chain accSink G E) p (chain_after G E key iv nm qs) =
           Some ((length p, None), chain_after G E key iv nm (qs @ [p]))"
proof -
  obtain g X where gx: "gz_steps G (gz_init G) qs = (g, X)" by force
  obtain g' out where st: "gz_step G g p = (g', out)" by force
  have sn: "gz_steps G (gz_init G) (qs @ [p]) = (g', X @ concat out)"
    by (simp add: gz_steps_snoc gx st)
  from fit have fit': "int (length (fst (CryptBlocks (E key) iv (X @ concat out)))) \<le> 10485760"
    by (simp add: sn)
  note wc = chain_aes_chunks [where E = E and key = key and iv = iv and X = X and out = out
      and cs = "10485760" and nm = nm, OF fit']
  show ?thesis
    by (simp add: chain_def chain_aes_def chain_bundledSize_def chain_cw_def gzip_Write_def
        chain_after_def gx st sn wc Let_def)
qed

lemma chain_closes:
  assumes fit: "int (length (gz_stream G qs)) + 16 \<le> 10 * 1024 * 1024"
  shows "\<exists>gw a cw.
           lw_gzClose (chain accSink G E) (chain_after G E key iv nm qs)
             = Some (None, gw, aes_after E key iv (gz_stream G qs),
                     int (length (fst (CryptBlocks (E key) iv (gz_stream G qs)))),
                     cw_after nm 10485760 (fst (CryptBlocks (E key) iv (gz_stream G qs))))
         \<and> lw_aesClose (chain accSink G E)
               (gw, aes_after E key iv (gz_stream G qs),
                int (length (fst (CryptBlocks (E key) iv (gz_stream G qs)))),
                cw_after nm 10485760 (fst (CryptBlocks (E key) iv (gz_stream G qs))))
             = Some (None, gw, a,
                     int (length (fst (CryptBlocks (E key) iv
                            (gz_stream G qs @ pkcs7 (length (gz_stream G qs)))))),
                     cw_after nm 10485760 (fst (CryptBlocks (E key) iv
                            (gz_stream G qs @ pkcs7 (length (gz_stream G qs))))))
         \<and> lw_cwClose (chain accSink G E)
               (gw, a,
                int (length (fst (CryptBlocks (E key) iv
                            (gz_stream G qs @ pkcs7 (length (gz_stream G qs)))))),
                cw_after nm 10485760 (fst (CryptBlocks (E key) iv
                            (gz_stream G qs @ pkcs7 (length (gz_stream G qs))))))
             = Some (None, gw, a,
                     int (length (fst (CryptBlocks (E key) iv
                            (gz_stream G qs @ pkcs7 (length (gz_stream G qs)))))),
                     cw,
                     [\<lparr>hsf_filename = nm @ ''.part.0'',
                       hsf_hash = sha1 (fst (CryptBlocks (E key) iv
                            (gz_stream G qs @ pkcs7 (length (gz_stream G qs)))))\<rparr>],
                     [(nm @ ''.part.0'', fst (CryptBlocks (E key) iv
                            (gz_stream G qs @ pkcs7 (length (gz_stream G qs)))))])"
proof -
  let ?cs = "10485760 :: int"
  obtain g X where gx: "gz_steps G (gz_init G) qs = (g, X)" by force
  let ?S = "gz_stream G qs"
  have S: "?S = X @ concat (gz_finish G g)" by (simp add: gz_stream_def gx)
  let ?C1 = "fst (CryptBlocks (E key) iv ?S)"
  let ?C2 = "fst (CryptBlocks (E key) iv (?S @ pkcs7 (length ?S)))"
  have l1: "length ?C1 \<le> length ?S" by (simp add: length_CryptBlocks)
  have l2: "length ?C2 = 16 * (length ?S div 16) + 16"
  proof -
    have "length (?S @ pkcs7 (length ?S)) = 16 * (length ?S div 16) + 16"
      by (simp add: length_pkcs7) presburger
    then have "length (?S @ pkcs7 (length ?S)) div 16 = length ?S div 16 + 1" by simp
    then show ?thesis by (simp only: length_CryptBlocks) simp
  qed
  from fit l1 have fit1: "int (length (fst (CryptBlocks (E key) iv (X @ concat (gz_finish G g))))) \<le> 10485760"
    by (simp add: S)
  from fit l2 have fit2: "int (length ?C2) \<le> ?cs" by simp
  let ?gw = "\<lparr>gzw_state = g, gzw_err = None, gzw_closed = True\<rparr>"
  note wc = chain_aes_chunks [where E = E and key = key and iv = iv and X = X
      and out = "gz_finish G g" and cs = "10485760" and nm = nm, OF fit1]
  have gz: "lw_gzClose (chain accSink G E) (chain_after G E key iv nm qs)
             = Some (None, ?gw, aes_after E key iv ?S, int (length ?C1), cw_after nm ?cs ?C1)"
    by (simp add: chain_def chain_aes_def chain_bundledSize_def chain_cw_def gzip_Close_def
        chain_after_def gx wc S Let_def)
  let ?R = "counted (\<lambda>C d. d = cw_after nm ?cs C)"
  let ?Q = "\<lambda>C::byte list. int (length C) \<le> ?cs"
  have R1: "?R ?C1 (int (length ?C1), cw_after nm ?cs ?C1)" by (simp add: counted_def)
  from aes_Close_stream [where R = ?R and Q = ?Q and E = E and key = key,
      OF counted_cw_step R1 fit2]
  obtain d' where
    ac: "aes_Close (counting_Write (cw_Write (hashingSink accSink))) E
           (aes_after E key iv ?S, int (length ?C1), cw_after nm ?cs ?C1)
         = Some (None, \<lparr>buffer = drop (16 * (length ?S div 16)) ?S @ pkcs7 (length ?S), cbc = None\<rparr>, d')"
    and R2: "?R ?C2 d'" by blast
  from R2 have d': "d' = (int (length ?C2), cw_after nm ?cs ?C2)"
    by (cases d') (simp add: counted_def)
  let ?a = "\<lparr>buffer = drop (16 * (length ?S div 16)) ?S @ pkcs7 (length ?S), cbc = None\<rparr>"
  have aes: "lw_aesClose (chain accSink G E)
               (?gw, aes_after E key iv ?S, int (length ?C1), cw_after nm ?cs ?C1)
             = Some (None, ?gw, ?a, int (length ?C2), cw_after nm ?cs ?C2)"
    by (simp add: chain_def chain_bundledSize_def chain_cw_def under_def ac d')
  from l2 have ne: "?C2 \<noteq> []" by auto
  let ?cw = "\<lparr>cw_name = nm, cw_chunkSize = ?cs, cur_filename = nm @ ''.part.0'',
              cur_w = None :: string hashingSinkWriter option, cur_index = 1,
              cur_offset = int (length ?C2)\<rparr>"
  have cw: "lw_cwClose (chain accSink G E) (?gw, ?a, int (length ?C2), cw_after nm ?cs ?C2)
             = Some (None, ?gw, ?a, int (length ?C2), ?cw,
                     [\<lparr>hsf_filename = nm @ ''.part.0'', hsf_hash = sha1 ?C2\<rparr>],
                     [(nm @ ''.part.0'', ?C2)])"
    by (simp add: chain_def under_def cw_Close_one_chunk [OF ne])
  from gz aes cw show ?thesis by blast
qed

lemma length_fill16: "length (fill16 bs) = 16"
  by (simp add: fill16_def)

lemma NewWriter_chain:
  "NewWriter G (Inr k) (Inr i) nm sz ([]::accumulatingSink) =
     Inr \<lparr>bw_basename = nm, bw_size = sz, bw_sha1 = [], bw_tar = tar_NewWriter,
          bw_down = chain_after G E (fill16 k) (block_of_bytes (fill16 i)) nm [],
          bw_trueSize = 0, didInitialWrite = False, closed = False,
          bw_key = fill16 k, bw_iv = fill16 i\<rparr>"
  by (simp add: NewWriter_def newAes128CbcWriter_def length_fill16 chain_after_def aes_after_def
      CryptBlocks_Nil cw_after_def)

lemma chain_fits_prefix:
  assumes "int (length (fst (CryptBlocks enc iv (snd (gz_steps G g (qs @ [p])))))) \<le> cs"
  shows "int (length (fst (CryptBlocks enc iv (snd (gz_steps G g qs))))) \<le> cs"
proof -
  have "length (snd (gz_steps G g qs)) \<le> length (snd (gz_steps G g (qs @ [p])))"
    by (simp add: gz_steps_snoc)
  then have "length (snd (gz_steps G g qs)) div 16 \<le> length (snd (gz_steps G g (qs @ [p]))) div 16"
    by (rule div_le_mono)
  with assms show ?thesis by (simp add: length_CryptBlocks)
qed

lemma populateManifest_chain:
  assumes "bw_down bw = (gw, a, n, cw, [\<lparr>hsf_filename = f, hsf_hash = h\<rparr>], s)"
  shows "img_Size (m_Image (populateManifest (chain S G E) bw (toManifest md))) = bw_trueSize bw"
    and "img_BundledSize (m_Image (populateManifest (chain S G E) bw (toManifest md))) = n"
    and "img_Count (m_Image (populateManifest (chain S G E) bw (toManifest md))) = 1"
    and "img_Parts (m_Image (populateManifest (chain S G E) bw (toManifest md))) =
           [\<lparr>part_Index = 0, part_Filename = f,
             part_Digest = \<lparr>va_Algorithm = ''SHA1'', va_Value = hex h\<rparr>\<rparr>]"
  using assms by (simp_all add: populateManifest_def toManifest_def chain_def Let_def)

lemma chain_bundle:
  fixes G :: "'g gzip" and blk :: "byte list" and ps :: "byte list list"
  assumes nw: "NewWriter G (Inr k) (Inr i) nm sz ([]::accumulatingSink) = Inr bw"
    and H: "ps \<noteq> [] \<longrightarrow> H (initialHeader bw now) = Inr blk"
    and sz: "int (length (concat ps)) = sz"
    and S: "S = gz_stream G ((if ps = [] then [] else [[], blk]) @ filter (\<lambda>p. p \<noteq> []) ps
                  @ [replicate (nat ((- sz) mod 512)) 0, replicate 512 0, replicate 512 0])"
    and fit: "int (length S) + 16 \<le> 10485760"
    and C: "C = fst (CryptBlocks (E (fill16 k)) (block_of_bytes (fill16 i)) (S @ pkcs7 (length S)))"
  shows "\<exists>bw2 gw a cw. make_bundle (chain accSink G E) H now md ps bw
                 = Some (Inr (bw2, populateManifest (chain accSink G E) bw2 (toManifest md)))
           \<and> bw_down bw2 = (gw, a, int (length C), cw,
                 [\<lparr>hsf_filename = nm @ ''.part.0'', hsf_hash = sha1 C\<rparr>], [(nm @ ''.part.0'', C)])
           \<and> bw_sha1 bw2 = (if ps = [] then [] else blk) @ concat ps
                 @ replicate (nat ((- sz) mod 512)) 0 @ replicate 1024 0
           \<and> bw_trueSize bw2 = sz"
proof -
  let ?key = "fill16 k" and ?iv = "block_of_bytes (fill16 i)"
  let ?L = "chain accSink G E :: ('g, accumulatingSink, string) chain Lower"
  let ?R = "\<lambda>qs d. d = chain_after G E ?key ?iv nm qs"
  let ?Q = "\<lambda>qs. int (length (fst (CryptBlocks (E ?key) ?iv (snd (gz_steps G (gz_init G) qs)))))
              \<le> 10 * 1024 * 1024"
  let ?qsf = "(if ps = [] then [] else [[], blk]) @ filter (\<lambda>p. p \<noteq> []) ps
                  @ [replicate (nat ((- sz) mod 512)) 0, replicate 512 0, replicate 512 0]"
  let ?P = "\<lambda>d. \<exists>gw a cw. d = (gw, a, int (length C), cw,
                 [\<lparr>hsf_filename = nm @ ''.part.0'', hsf_hash = sha1 C\<rparr>], [(nm @ ''.part.0'', C)])"
  from nw have bw: "bw = \<lparr>bw_basename = nm, bw_size = sz, bw_sha1 = [], bw_tar = tar_NewWriter,
          bw_down = chain_after G E ?key ?iv nm [],
          bw_trueSize = 0, didInitialWrite = False, closed = False,
          bw_key = fill16 k, bw_iv = fill16 i\<rparr>"
    by (simp only: NewWriter_chain [where E = E] sum.inject)
  have bsz: "bw_size bw = sz" by (simp add: bw)
  have step: "\<forall>qs d p. ?R qs d \<longrightarrow> ?Q (qs @ [p]) \<longrightarrow>
            (\<exists>d'. lw_gzWrite ?L p d = Some ((length p, None), d') \<and> ?R (qs @ [p]) d')"
    by (simp add: chain_gzWrite)
  have pre: "\<forall>qs p. ?Q (qs @ [p]) \<longrightarrow> ?Q qs"
    by (intro allI impI) (rule chain_fits_prefix)
  have R: "?R [] (bw_down bw)" by (simp add: bw)
  have "length (snd (gz_steps G (gz_init G) ?qsf)) \<le> length S"
    by (simp only: S gz_stream_def case_prod_beta Let_def) simp
  moreover have "length (fst (CryptBlocks (E ?key) ?iv (snd (gz_steps G (gz_init G) ?qsf))))
      \<le> length (snd (gz_steps G (gz_init G) ?qsf))"
    by (simp add: length_CryptBlocks)
  ultimately have Q: "?Q ?qsf" using fit by linarith
  have fresh: "\<not> didInitialWrite bw" "bw_tar bw = tar_NewWriter" "bw_sha1 bw = []"
      "bw_trueSize bw = 0" "\<not> closed bw"
    by (simp_all add: bw)
  from fit have fit': "int (length (gz_stream G ?qsf)) + 16 \<le> 10 * 1024 * 1024"
    by (simp add: S)
  have cl: "\<forall>d. ?R ?qsf d \<longrightarrow>
            (\<exists>d2 d3 d4. lw_gzClose ?L d = Some (None, d2) \<and> lw_aesClose ?L d2 = Some (None, d3)
                \<and> lw_cwClose ?L d3 = Some (None, d4) \<and> ?P d4)"
  proof (intro allI impI)
    fix d assume d: "d = chain_after G E ?key ?iv nm ?qsf"
    from chain_closes [where G = G and E = E and key = ?key and iv = ?iv and nm = nm
        and qs = ?qsf, OF fit']
    show "\<exists>d2 d3 d4. lw_gzClose ?L d = Some (None, d2) \<and> lw_aesClose ?L d2 = Some (None, d3)
                \<and> lw_cwClose ?L d3 = Some (None, d4) \<and> ?P d4"
      unfolding d C S by blast
  qed
  from make_bundle_succeeds [where R = ?R and Q = ?Q and P = ?P and L = ?L and H = H
      and now = now and bw = bw and blk = blk and ps = ps and md = md,
      unfolded bsz, OF step pre R Q fresh H sz cl]
  show ?thesis by blast
qed

end
